theory Spec2Isabelle
  imports Main "HOL-Library.AList"
begin

section \<open>Python values used by \<open>regress_cc.py\<close>\<close>

text \<open>
  The program keeps the optimizer flags of a compiler invocation in a Python \<open>dict\<close> from
  flag name to state, both strings. A \<open>dict\<close> iterates in insertion order and the program
  depends on that order, so a dictionary is an association list without repeated keys.
  Dictionaries are mutable objects that several \<open>Optimizers\<close> instances may share: they live
  in a store, and an instance holds the address of its dictionary.
\<close>

type_synonym pydict = "(string \<times> string) list"

type_synonym heap = "pydict list"

text \<open>
  The exceptions that reach the code. \<open>CalledProcessError\<close> and \<open>TimeoutExpired\<close> are the two
  subclasses of \<open>subprocess.SubprocessError\<close>; both carry the attributes \<open>stdout\<close> and
  \<open>stderr\<close>, each the captured bytes or Python's \<open>None\<close>. A caller's predicate may also
  raise the bare base class, which has no such attribute. \<open>OSError\<close> stands for its
  subclasses \<open>FileNotFoundError\<close> and \<open>PermissionError\<close>, raised by \<open>subprocess.run\<close> when
  the program cannot be started. Captured output is a byte string (a \<open>char\<close> is a byte);
  \<open>UnicodeDecodeError\<close> is what \<open>bytes.decode( "utf-8" )\<close> raises on bytes that are not UTF-8.
\<close>

datatype exn =
    CalledProcessError "string option" "string option"
  | TimeoutExpired "string option" "string option"
  | SubprocessError
  | OSError
  | KeyError string
  | IndexError
  | AttributeError
  | UnicodeDecodeError
  | ValueError

text \<open>What the clause \<open>except subprocess.SubprocessError\<close> catches.\<close>

fun is_SubprocessError :: "exn \<Rightarrow> bool" where
  "is_SubprocessError (CalledProcessError out err) = True"
| "is_SubprocessError (TimeoutExpired out err) = True"
| "is_SubprocessError SubprocessError = True"
| "is_SubprocessError e = False"

text \<open>
  The attribute \<open>e.stdout\<close> (and \<open>e.stderr\<close>) where it holds bytes; \<open>None\<close> where it is
  Python's \<open>None\<close> or the exception has no such attribute, so that \<open>e.stdout.decode\<close>
  raises \<open>AttributeError\<close>.
\<close>

fun exn_stdout :: "exn \<Rightarrow> string option" where
  "exn_stdout (CalledProcessError out err) = out"
| "exn_stdout (TimeoutExpired out err) = out"
| "exn_stdout e = None"

fun exn_stderr :: "exn \<Rightarrow> string option" where
  "exn_stderr (CalledProcessError out err) = err"
| "exn_stderr (TimeoutExpired out err) = err"
| "exn_stderr e = None"

subsection \<open>Dictionaries\<close>

text \<open>\<open>d[k]\<close>: the value stored under \<open>k\<close>, or \<open>KeyError\<close>.\<close>

definition getitem :: "pydict \<Rightarrow> string \<Rightarrow> exn + string" where
  "getitem d k = (case map_of d k of None \<Rightarrow> Inl (KeyError k) | Some v \<Rightarrow> Inr v)"

text \<open>
  \<open>d[k] = v\<close>: an existing key keeps its position and takes the new value, a new key is
  appended.
\<close>

definition setitem :: "pydict \<Rightarrow> string \<Rightarrow> string \<Rightarrow> pydict" where
  "setitem d k v = AList.update k v d"

text \<open>\<open>dict(pairs)\<close>: the pairs are stored one after the other.\<close>

definition dict_of :: "(string \<times> string) list \<Rightarrow> pydict" where
  "dict_of ps = foldl (\<lambda>d p. setitem d (fst p) (snd p)) [] ps"

definition keys :: "pydict \<Rightarrow> string set" where
  "keys d = fst ` set d"

subsection \<open>Strings\<close>

text \<open>\<open>s.startswith(p)\<close>.\<close>

definition startswith :: "string \<Rightarrow> string \<Rightarrow> bool" where
  "startswith s p = (take (length p) s = p)"

text \<open>
  \<open>s.replace(old, new, 1)\<close>: the leftmost occurrence of \<open>old\<close> is replaced, nothing else.
  The source calls it with \<open>old = '-f'\<close> only; an empty \<open>old\<close> is not modelled.
\<close>

fun replace1 :: "string \<Rightarrow> string \<Rightarrow> string \<Rightarrow> string" where
  "replace1 old new [] = []"
| "replace1 old new (c # cs) =
     (if startswith (c # cs) old then new @ drop (length old) (c # cs)
      else c # replace1 old new cs)"

text \<open>
  \<open>b.decode( "utf-8" )\<close> returns exactly when the bytes are well-formed UTF-8: one byte
  below \<open>0x80\<close>; a lead byte \<open>0xC2..0xDF\<close> and one continuation byte \<open>0x80..0xBF\<close>; a
  lead byte \<open>0xE0..0xEF\<close> and two continuation bytes, without the overlong forms after
  \<open>0xE0\<close> and the surrogates after \<open>0xED\<close>; a lead byte \<open>0xF0..0xF4\<close> and three
  continuation bytes, without the overlong forms after \<open>0xF0\<close> and the code points beyond
  \<open>U+10FFFF\<close> after \<open>0xF4\<close>. Anything else, a truncated sequence included, makes it raise
  \<open>UnicodeDecodeError\<close>.
\<close>

definition continuation :: "nat \<Rightarrow> bool" where
  "continuation b = (128 \<le> b \<and> b < 192)"

fun utf8 :: "nat list \<Rightarrow> bool" where
  "utf8 [] = True"
| "utf8 (b # bs) =
     (if b < 128 then utf8 bs
      else if b < 194 then False
      else if b < 224 then
        (case bs of
           c1 # rest \<Rightarrow> continuation c1 \<and> utf8 rest
         | _ \<Rightarrow> False)
      else if b < 240 then
        (case bs of
           c1 # c2 # rest \<Rightarrow>
             continuation c1 \<and> continuation c2
             \<and> (if b = 224 then 160 \<le> c1 else True)
             \<and> (if b = 237 then c1 < 160 else True)
             \<and> utf8 rest
         | _ \<Rightarrow> False)
      else if b < 245 then
        (case bs of
           c1 # c2 # c3 # rest \<Rightarrow>
             continuation c1 \<and> continuation c2 \<and> continuation c3
             \<and> (if b = 240 then 144 \<le> c1 else True)
             \<and> (if b = 244 then c1 < 144 else True)
             \<and> utf8 rest
         | _ \<Rightarrow> False)
      else False)"

definition decodes :: "string \<Rightarrow> bool" where
  "decodes out = utf8 (map of_char out)"

section \<open>The class \<open>Optimizers\<close>\<close>

text \<open>
  The arguments of an instance are what the caller of \<open>fromArgs\<close> passed, and \<open>fromArgs\<close>
  iterates over them once, for the command line of the compiler. A list can be iterated
  again. A one-shot iterator, such as the chain that \<open>flatten\<close> returns, yields its tokens
  to that first iteration and nothing afterwards: the instance then holds an exhausted
  iterator. An instance is not built around an iterator that still has tokens.
\<close>

datatype iterable =
    ListObject "string list"
  | IteratorObject "string list"

datatype arglist =
    ArgList "string list"
  | Exhausted

text \<open>What one iteration over the object yields, and what the object is afterwards.\<close>

fun yielded :: "iterable \<Rightarrow> string list" where
  "yielded (ListObject xs) = xs"
| "yielded (IteratorObject xs) = xs"

fun remains :: "iterable \<Rightarrow> arglist" where
  "remains (ListObject xs) = ArgList xs"
| "remains (IteratorObject xs) = Exhausted"

text \<open>What iterating over the arguments of an instance yields, each time.\<close>

fun arg_tokens :: "arglist \<Rightarrow> string list" where
  "arg_tokens (ArgList xs) = xs"
| "arg_tokens Exhausted = []"

fun as_iterable :: "arglist \<Rightarrow> iterable" where
  "as_iterable (ArgList xs) = ListObject xs"
| "as_iterable Exhausted = IteratorObject []"

record Optimizers =
  options :: nat
  args :: arglist
  cc :: string

text \<open>
  The compiler is an external process. \<open>fromArgs\<close> runs
  \<open>cc args... -Q --help=optimizers\<close> with \<open>check = True\<close> and both streams captured; the
  outcome of that run is one of: exit status zero with a report that is UTF-8, exit status
  zero with output that is not, a non-zero exit status with the captured streams, or no
  process at all. The report is given as the rows that \<open>map( str.split, lines )\<close> yields
  from the decoded output (one list of tokens for each line).
\<close>

datatype cc_outcome =
    Report "string list list"
  | ReportNotUtf8
  | ExitNonZero string string
  | CannotStart

type_synonym compiler = "string \<Rightarrow> string list \<Rightarrow> cc_outcome"

text \<open>The filter of \<open>fromArgs\<close>: \<open>len( pair ) is 2 and pair[ 0 ].startswith( '-f' )\<close>.\<close>

fun keep_row :: "string list \<Rightarrow> bool" where
  "keep_row [name, state] = startswith name ''-f''"
| "keep_row row = False"

fun row_pair :: "string list \<Rightarrow> string \<times> string" where
  "row_pair row = (row ! 0, row ! 1)"

definition report_dict :: "string list list \<Rightarrow> pydict" where
  "report_dict rows = dict_of (map row_pair (filter keep_row rows))"

text \<open>
  \<open>fromArgs\<close>: a non-zero exit makes \<open>subprocess.run\<close> raise \<open>CalledProcessError\<close>, which
  the \<open>except\<close> clause catches and raises again; an executable that cannot be started makes it
  raise an \<open>OSError\<close>, and output that is not UTF-8 makes \<open>proc.stdout.decode( "utf-8" )\<close>
  raise \<open>UnicodeDecodeError\<close>: the clause catches neither. Otherwise a new dictionary is
  built and a new instance refers to it.
\<close>

definition fromArgs :: "compiler \<Rightarrow> iterable \<Rightarrow> string \<Rightarrow> heap \<Rightarrow> (exn + Optimizers) \<times> heap" where
  "fromArgs run_cc argv c h =
     (case run_cc c (yielded argv) of
        CannotStart \<Rightarrow> (Inl OSError, h)
      | ExitNonZero out err \<Rightarrow> (Inl (CalledProcessError (Some out) (Some err)), h)
      | ReportNotUtf8 \<Rightarrow> (Inl UnicodeDecodeError, h)
      | Report rows \<Rightarrow>
          (Inr \<lparr>options = length h, args = remains argv, cc = c\<rparr>, h @ [report_dict rows]))"

text \<open>
  \<open>diff\<close> is a lazy \<open>filter\<close> over \<open>other.options.items()\<close>; \<open>diff_items\<close> is what consuming it
  yields: the pairs whose value differs from the one \<open>self\<close> holds, in the order of \<open>other\<close>,
  or the \<open>KeyError\<close> of the first key that \<open>self\<close> lacks.
\<close>

fun diff_items :: "pydict \<Rightarrow> (string \<times> string) list \<Rightarrow> exn + (string \<times> string) list" where
  "diff_items d [] = Inr []"
| "diff_items d (pair # ps) =
     (case getitem d (fst pair) of
        Inl e \<Rightarrow> Inl e
      | Inr w \<Rightarrow>
          (case diff_items d ps of
             Inl e \<Rightarrow> Inl e
           | Inr ds \<Rightarrow> Inr (if w \<noteq> snd pair then pair # ds else ds)))"

definition diff :: "heap \<Rightarrow> Optimizers \<Rightarrow> Optimizers \<Rightarrow> exn + (string \<times> string) list" where
  "diff h self other = diff_items (h ! options self) (h ! options other)"

text \<open>The local function \<open>transform\<close> of \<open>flatten\<close>.\<close>

definition transform :: "string \<times> string \<Rightarrow> string" where
  "transform pair =
     (if snd pair = ''[enabled]'' then fst pair
      else if snd pair = ''[disabled]'' then replace1 ''-f'' ''-fno-'' (fst pair)
      else fst pair @ snd pair)"

text \<open>
  \<open>flatten\<close> queries the compiler at once, with the arguments of the instance, and returns
  a lazy chain over the same arguments and the transformed delta; the result here is the list
  that consuming the chain yields, or the exception raised on the way.
\<close>

definition flatten :: "compiler \<Rightarrow> Optimizers \<Rightarrow> heap \<Rightarrow> (exn + string list) \<times> heap" where
  "flatten run_cc self h =
     (case fromArgs run_cc (as_iterable (args self)) (cc self) h of
        (Inl e, h') \<Rightarrow> (Inl e, h')
      | (Inr implied, h') \<Rightarrow>
          (case diff h' implied self of
             Inl e \<Rightarrow> (Inl e, h')
           | Inr ds \<Rightarrow>
               (Inr (arg_tokens (args self) @
                     map transform (filter (\<lambda>pair. snd pair \<noteq> ''[default]'') ds)), h')))"

section \<open>The regression walk\<close>

text \<open>
  The predicate \<open>testOptions\<close> is a caller's function: it receives the flattened arguments
  and returns or raises. It is taken to consume its argument, as \<open>testPredicate\<close> does in its
  first line, so an exception of the lazy chain surfaces inside the call.
\<close>

type_synonym predicate = "string list \<Rightarrow> exn option"

text \<open>The statement \<open>testOptions( result.flatten() )\<close>.\<close>

definition trial :: "compiler \<Rightarrow> predicate \<Rightarrow> Optimizers \<Rightarrow> heap \<Rightarrow> exn option \<times> heap" where
  "trial run_cc testOptions result h =
     (case flatten run_cc result h of
        (Inl e, h') \<Rightarrow> (Some e, h')
      | (Inr xs, h') \<Rightarrow> (testOptions xs, h'))"

text \<open>
  One round of the \<open>for\<close> loop of \<open>regress\<close>, for the next item of
  \<open>reach.options\<close>. The filter of \<open>base.diff( reach )\<close> runs when the loop asks for the
  next pair, on the dictionary as it is then: it raises \<open>KeyError\<close> or skips the pair or
  lets the body run. The handler restores the value and then builds its log line from
  \<open>e.stdout.decode( "utf-8" )\<close>, which raises \<open>AttributeError\<close> when \<open>e.stdout\<close> is not bytes
  and \<open>UnicodeDecodeError\<close> when the bytes are not UTF-8; the argument is evaluated whatever
  the level of the logger. The result is the exception that leaves the loop, if any, and the
  store.
\<close>

definition regress_step ::
  "compiler \<Rightarrow> predicate \<Rightarrow> Optimizers \<Rightarrow> Optimizers \<Rightarrow> string \<times> string \<Rightarrow> heap
     \<Rightarrow> exn option \<times> heap" where
  "regress_step run_cc testOptions base result pair h =
     (case getitem (h ! options base) (fst pair) of
        Inl e \<Rightarrow> (Some e, h)
      | Inr current \<Rightarrow>
          if current = snd pair then (None, h)
          else
            (case getitem (h ! options result) (fst pair) of
               Inl e \<Rightarrow> (Some e, h)
             | Inr original \<Rightarrow>
                 (case trial run_cc testOptions result
                         (h[options result := setitem (h ! options result) (fst pair) (snd pair)]) of
                    (None, h2) \<Rightarrow> (None, h2)
                  | (Some e, h2) \<Rightarrow>
                      if is_SubprocessError e then
                        (case exn_stdout e of
                           None \<Rightarrow>
                             (Some AttributeError,
                              h2[options result := setitem (h2 ! options result) (fst pair) original])
                         | Some out \<Rightarrow>
                             (if decodes out then None else Some UnicodeDecodeError,
                              h2[options result := setitem (h2 ! options result) (fst pair) original]))
                      else (Some e, h2))))"

fun regress_loop ::
  "compiler \<Rightarrow> predicate \<Rightarrow> Optimizers \<Rightarrow> Optimizers \<Rightarrow> (string \<times> string) list \<Rightarrow> heap
     \<Rightarrow> exn option \<times> heap" where
  "regress_loop run_cc testOptions base result [] h = (None, h)"
| "regress_loop run_cc testOptions base result (pair # rest) h =
     (case regress_step run_cc testOptions base result pair h of
        (None, h') \<Rightarrow> regress_loop run_cc testOptions base result rest h'
      | (Some e, h') \<Rightarrow> (Some e, h'))"

text \<open>
  \<open>regress\<close>: the new instance is built from \<open>base.options\<close> itself, the arguments of
  \<open>reach\<close> and the compiler of \<open>base\<close>. The loop runs over the items of \<open>reach.options\<close>:
  the loop writes to the dictionary of \<open>base\<close> only, and where that is the dictionary of
  \<open>reach\<close> too, no pair differs and nothing is written.
\<close>

definition regress ::
  "compiler \<Rightarrow> predicate \<Rightarrow> Optimizers \<Rightarrow> Optimizers \<Rightarrow> heap \<Rightarrow> (exn + Optimizers) \<times> heap" where
  "regress run_cc testOptions base reach h =
     (let result = \<lparr>options = options base, args = args reach, cc = cc base\<rparr>
      in case regress_loop run_cc testOptions base result (h ! options reach) h of
           (None, h') \<Rightarrow> (Inr result, h')
         | (Some e, h') \<Rightarrow> (Inl e, h'))"

section \<open>The predicate of the command line\<close>

text \<open>
  \<open>testPredicate\<close> formats the template and tokenizes it with \<open>shlex.split\<close>; both are
  library calls and are given as the function \<open>tokenize\<close> from the options to the tokens or
  to the exception they raise. The loop that splits the tokens at \<open>';'\<close> appends to the last
  command or opens a new one.
\<close>

fun split_step :: "string list list \<Rightarrow> string \<Rightarrow> string list list" where
  "split_step cmds token =
     (if token = '';'' then cmds @ [[]] else butlast cmds @ [last cmds @ [token]])"

definition split_cmds :: "string list \<Rightarrow> string list list" where
  "split_cmds tokens = foldl split_step [[]] tokens"

text \<open>
  One \<open>subprocess.run( cmd, stdout = PIPE, stderr = STDOUT, check = True, timeout = timeout )\<close>.
  The outcome of the process is external: an exit status with the captured output, no
  process at all, or the expiry of the timeout with the output read so far (\<open>None\<close> when
  nothing was read). An empty command vector has no \<open>args[0]\<close> to execute.
\<close>

datatype run_outcome =
    Exit int string
  | NotStarted
  | Timeout "string option"

type_synonym runner = "int option \<Rightarrow> string list \<Rightarrow> run_outcome"

definition run_checked :: "runner \<Rightarrow> int option \<Rightarrow> string list \<Rightarrow> exn option" where
  "run_checked run timeout cmd =
     (if cmd = [] then Some IndexError
      else case run timeout cmd of
             Exit status out \<Rightarrow>
               if status = 0 then None else Some (CalledProcessError (Some out) None)
           | NotStarted \<Rightarrow> Some OSError
           | Timeout out \<Rightarrow> Some (TimeoutExpired out None))"

fun run_all :: "runner \<Rightarrow> int option \<Rightarrow> string list list \<Rightarrow> exn option" where
  "run_all run timeout [] = None"
| "run_all run timeout (cmd # cmds) =
     (case run_checked run timeout cmd of
        Some e \<Rightarrow> Some e
      | None \<Rightarrow> run_all run timeout cmds)"

definition testPredicate ::
  "(string list \<Rightarrow> exn + string list) \<Rightarrow> runner \<Rightarrow> int option \<Rightarrow> predicate" where
  "testPredicate tokenize run timeout opts =
     (case tokenize opts of
        Inl e \<Rightarrow> Some e
      | Inr tokens \<Rightarrow> run_all run timeout (split_cmds tokens))"

section \<open>The specification's description of \<open>flatten\<close>\<close>

text \<open>
  The specification describes the output of \<open>flatten\<close> entry by entry. These definitions
  follow its words, not the code: the delta is the entries of the set whose value differs
  from the implied one; an entry with the value \<open>[default]\<close> emits nothing, \<open>[enabled]\<close>
  emits the flag name, \<open>[disabled]\<close> emits the name with its leftmost \<open>-f\<close> rewritten to
  \<open>-fno-\<close>, and any other value emits the name followed by the value.
\<close>

definition spec_leftmost :: "string \<Rightarrow> string \<Rightarrow> nat option" where
  "spec_leftmost old s = List.find (\<lambda>i. startswith (drop i s) old) [0..<length s]"

definition spec_rewrite_no :: "string \<Rightarrow> string" where
  "spec_rewrite_no name =
     (case spec_leftmost ''-f'' name of
        None \<Rightarrow> name
      | Some i \<Rightarrow> take i name @ ''-fno-'' @ drop (i + 2) name)"

fun spec_emit :: "string \<times> string \<Rightarrow> string list" where
  "spec_emit (name, state) =
     (if state = ''[default]'' then []
      else if state = ''[enabled]'' then [name]
      else if state = ''[disabled]'' then [spec_rewrite_no name]
      else [name @ state])"

definition spec_delta :: "pydict \<Rightarrow> pydict \<Rightarrow> (string \<times> string) list" where
  "spec_delta implied own = filter (\<lambda>pair. map_of implied (fst pair) \<noteq> Some (snd pair)) own"

section \<open>Example inputs\<close>

text \<open>
  A compiler that reports four flags with a state, between a header line and a flag without
  one, and whose report depends on the arguments; a compiler that rejects every command
  line; and a compiler that is not installed.
\<close>

definition example_report :: "string list \<Rightarrow> string list list" where
  "example_report argv =
     [[''The'', ''following'', ''options'', ''control'', ''optimizations:''],
      [''-fexcess-precision=[fast|standard|standard16]'',
       if ''-ffast-math'' \<in> set argv then ''fast'' else ''[default]''],
      [''-flifetime-dse=<0,2>'', ''2''],
      [''-ftree-vectorize'',
       if ''-fno-tree-vectorize'' \<in> set argv then ''[disabled]''
       else if ''-O2'' \<in> set argv \<or> ''-ftree-vectorize'' \<in> set argv then ''[enabled]''
       else ''[disabled]''],
      [''-funroll-loops'',
       if ''-fno-unroll-loops'' \<in> set argv then ''[disabled]''
       else if ''-funroll-loops'' \<in> set argv then ''[enabled]''
       else ''[disabled]''],
      [''-fvect-cost-model=[unlimited|dynamic|cheap|very-cheap]'']]"

definition example_gcc :: compiler where
  "example_gcc c argv = Report (example_report argv)"

definition failing_gcc :: compiler where
  "failing_gcc c argv = ExitNonZero [] ''gcc: error: unrecognized command-line option''"

definition missing_gcc :: compiler where
  "missing_gcc c argv = CannotStart"

text \<open>
  A store of four dictionaries: the report of \<open>example_gcc\<close> for \<open>-O2\<close>, its report for
  \<open>-O1 -funroll-loops -ffast-math\<close>, a dictionary with one value of each kind, and the
  report of a compiler that knows a single flag.
\<close>

definition example_heap :: heap where
  "example_heap =
     [[(''-fexcess-precision=[fast|standard|standard16]'', ''[default]''),
       (''-flifetime-dse=<0,2>'', ''2''),
       (''-ftree-vectorize'', ''[enabled]''),
       (''-funroll-loops'', ''[disabled]'')],
      [(''-fexcess-precision=[fast|standard|standard16]'', ''fast''),
       (''-flifetime-dse=<0,2>'', ''2''),
       (''-ftree-vectorize'', ''[disabled]''),
       (''-funroll-loops'', ''[enabled]'')],
      [(''-fexcess-precision=[fast|standard|standard16]'', ''[default]''),
       (''-flifetime-dse=<0,2>'', ''1''),
       (''-ftree-vectorize'', ''[enabled]''),
       (''-funroll-loops'', ''[disabled]'')],
      [(''-ftree-vectorize'', ''[enabled]'')]]"

definition example_base :: Optimizers where
  "example_base = \<lparr>options = 0, args = ArgList [''-O2''], cc = ''gcc''\<rparr>"

definition example_reach :: Optimizers where
  "example_reach =
     \<lparr>options = 1, args = ArgList [''-O1'', ''-funroll-loops'', ''-ffast-math''],
      cc = ''gcc''\<rparr>"

definition example_mixed :: Optimizers where
  "example_mixed =
     \<lparr>options = 2, args = ArgList [''-O1'', ''-funroll-loops'', ''-ffast-math''],
      cc = ''gcc''\<rparr>"

definition example_old :: Optimizers where
  "example_old = \<lparr>options = 3, args = ArgList [''-O2''], cc = ''gcc-2''\<rparr>"

text \<open>
  Predicates: one that accepts every trial, one whose command fails with output on every
  trial, one whose command fails with the single byte \<open>0xFF\<close> as its output, one whose
  command fails when loops are unrolled, and the parts of two built by
  \<open>testPredicate\<close>: a command line whose commands write nothing and outlive any timeout,
  and a template that yields no token.
\<close>

definition always_pass :: predicate where
  "always_pass xs = None"

definition always_fail :: predicate where
  "always_fail xs = Some (CalledProcessError (Some ''FAILED'') None)"

definition garbled_fail :: predicate where
  "garbled_fail xs = Some (CalledProcessError (Some [CHR 0xFF]) None)"

definition make_tokenize :: "string list \<Rightarrow> exn + string list" where
  "make_tokenize opts = Inr ([''make'', ''-B''] @ opts @ ['';'', ''./myTest''])"

definition empty_tokenize :: "string list \<Rightarrow> exn + string list" where
  "empty_tokenize opts = Inr []"

definition hanging_runner :: runner where
  "hanging_runner timeout cmd = (if timeout = None then Exit 0 [] else Timeout None)"

definition passing_runner :: runner where
  "passing_runner timeout cmd = Exit 0 []"

definition unroll_breaks :: predicate where
  "unroll_breaks xs =
     (if ''-funroll-loops'' \<in> set xs \<and> ''-fno-unroll-loops'' \<notin> set xs
      then Some (CalledProcessError (Some ''FAILED'') None) else None)"

text \<open>What the example compiler implies for the arguments of \<open>example_reach\<close>.\<close>

definition example_implied :: pydict where
  "example_implied = report_dict (example_report (arg_tokens (args example_reach)))"

text \<open>What \<open>flatten\<close> yields for \<open>example_mixed\<close>.\<close>

definition example_flat :: "string list" where
  "example_flat =
     [''-O1'', ''-funroll-loops'', ''-ffast-math'',
      ''-flifetime-dse=<0,2>1'', ''-ftree-vectorize'', ''-fno-unroll-loops'']"

text \<open>
  The working set of \<open>regress\<close> for the example sets, and the store that the walk under
  \<open>unroll_breaks\<close> has reached when it comes to the last flag.
\<close>

definition example_working :: Optimizers where
  "example_working =
     \<lparr>options = options example_base, args = args example_reach, cc = cc example_base\<rparr>"

definition example_midway :: heap where
  "example_midway =
     example_heap
       [0 := [(''-fexcess-precision=[fast|standard|standard16]'', ''fast''),
              (''-flifetime-dse=<0,2>'', ''2''),
              (''-ftree-vectorize'', ''[disabled]''),
              (''-funroll-loops'', ''[disabled]'')]]
     @ [example_implied, example_implied]"

section \<open>Dictionaries and strings\<close>

lemma yielded_as_iterable [simp]: "yielded (as_iterable a) = arg_tokens a"
  by (cases a) simp_all

lemma remains_as_iterable [simp]: "remains (as_iterable a) = a"
  by (cases a) simp_all

lemma getitem_Inr: "getitem d k = Inr v \<longleftrightarrow> map_of d k = Some v"
  by (simp add: getitem_def split: option.splits)

lemma getitem_Some: "map_of d k = Some v \<Longrightarrow> getitem d k = Inr v"
  by (simp add: getitem_def)

lemma getitem_None: "k \<notin> keys d \<Longrightarrow> getitem d k = Inl (KeyError k)"
  by (simp add: getitem_def keys_def map_of_eq_None_iff [symmetric])

lemma in_keys_iff: "k \<in> keys d \<longleftrightarrow> map_of d k \<noteq> None"
  by (simp add: keys_def map_of_eq_None_iff)

lemma map_of_setitem [simp]: "map_of (setitem d k v) = (map_of d)(k \<mapsto> v)"
  by (simp add: setitem_def update_conv')

lemma keys_setitem [simp]: "keys (setitem d k v) = insert k (keys d)"
  by (simp add: setitem_def keys_def dom_update)

lemma setitem_same: "map_of d k = Some v \<Longrightarrow> setitem d k v = d"
  by (simp add: setitem_def update_triv)

lemma setitem_twice [simp]: "setitem (setitem d k v) k w = setitem d k w"
  by (simp add: setitem_def)

lemma distinct_setitem: "distinct (map fst d) \<Longrightarrow> distinct (map fst (setitem d k v))"
  by (simp add: setitem_def distinct_update)

lemma distinct_foldl_setitem:
  "distinct (map fst d) \<Longrightarrow> distinct (map fst (foldl (\<lambda>d p. setitem d (fst p) (snd p)) d ps))"
  by (induction ps arbitrary: d) (simp_all add: distinct_setitem)

lemma distinct_dict_of: "distinct (map fst (dict_of ps))"
  by (simp add: dict_of_def distinct_foldl_setitem)

lemma map_of_foldl_setitem:
  "distinct (map fst ps) \<Longrightarrow>
     map_of (foldl (\<lambda>d p. setitem d (fst p) (snd p)) d ps) k =
       (case map_of ps k of None \<Rightarrow> map_of d k | Some v \<Rightarrow> Some v)"
proof (induction ps arbitrary: d)
  case Nil
  show ?case by simp
next
  case (Cons p ps)
  then have "map_of ps (fst p) = None"
    by (simp add: map_of_eq_None_iff)
  with Cons show ?case
    by (cases p) (auto split: option.splits)
qed

lemma keys_order_foldl_setitem:
  "set (map fst ps) \<subseteq> keys d \<Longrightarrow>
     map fst (foldl (\<lambda>d p. setitem d (fst p) (snd p)) d ps) = map fst d"
proof (induction ps arbitrary: d)
  case Nil
  show ?case by simp
next
  case (Cons p ps)
  then have "fst p \<in> keys d" by simp
  then have "map fst (setitem d (fst p) (snd p)) = map fst d"
    by (simp add: setitem_def update_keys keys_def)
  moreover from this have "keys (setitem d (fst p) (snd p)) = keys d"
    by (metis keys_def set_map)
  ultimately show ?case
    using Cons by simp
qed

lemma find_map_Suc:
  "List.find P (map Suc xs) = map_option Suc (List.find (\<lambda>i. P (Suc i)) xs)"
  by (induction xs) simp_all

lemma leftmost_Cons:
  "spec_leftmost old (c # cs) =
     (if startswith (c # cs) old then Some 0 else map_option Suc (spec_leftmost old cs))"
proof -
  have "[0..<length (c # cs)] = 0 # map Suc [0..<length cs]"
    by (simp add: upt_conv_Cons map_Suc_upt del: upt_Suc)
  then show ?thesis
    by (simp add: spec_leftmost_def find_map_Suc)
qed

text \<open>\<open>replace1\<close> rewrites at the leftmost occurrence and nowhere else.\<close>

lemma replace1_leftmost:
  "replace1 old new s =
     (case spec_leftmost old s of
        None \<Rightarrow> s
      | Some i \<Rightarrow> take i s @ new @ drop (i + length old) s)"
proof (induction s)
  case Nil
  show ?case by (simp add: spec_leftmost_def)
next
  case (Cons c cs)
  show ?case
  proof (cases "startswith (c # cs) old")
    case True
    then show ?thesis by (simp add: leftmost_Cons)
  next
    case False
    then show ?thesis
      using Cons.IH by (simp add: leftmost_Cons split: option.splits)
  qed
qed

lemma transform_spec_emit:
  "map transform (filter (\<lambda>pair. snd pair \<noteq> ''[default]'') ds) = concat (map spec_emit ds)"
proof (induction ds)
  case Nil
  show ?case by simp
next
  case (Cons p ds)
  obtain name state where p: "p = (name, state)" by (cases p)
  have "replace1 ''-f'' ''-fno-'' name = spec_rewrite_no name"
    by (simp add: replace1_leftmost spec_rewrite_no_def split: option.splits)
  with Cons.IH show ?case
    by (simp add: p transform_def)
qed

section \<open>\<open>diff\<close>\<close>

lemma diff_items_Inr:
  "set (map fst ps) \<subseteq> keys d \<Longrightarrow>
     diff_items d ps = Inr (filter (\<lambda>pair. map_of d (fst pair) \<noteq> Some (snd pair)) ps)"
proof (induction ps)
  case Nil
  then show ?case by simp
next
  case (Cons p ps)
  then obtain w where w: "map_of d (fst p) = Some w"
    by (auto simp: in_keys_iff)
  then have "getitem d (fst p) = Inr w" by (rule getitem_Some)
  with Cons w show ?case by auto
qed

lemma diff_items_Inl:
  "\<not> set (map fst ps) \<subseteq> keys d \<Longrightarrow>
     \<exists>k. diff_items d ps = Inl (KeyError k) \<and> k \<in> set (map fst ps) \<and> k \<notin> keys d"
proof (induction ps)
  case Nil
  then show ?case by simp
next
  case (Cons p ps)
  show ?case
  proof (cases "fst p \<in> keys d")
    case False
    then have "getitem d (fst p) = Inl (KeyError (fst p))" by (rule getitem_None)
    with False show ?thesis by auto
  next
    case True
    then obtain w where "getitem d (fst p) = Inr w"
      by (auto simp: in_keys_iff getitem_def)
    moreover from True Cons.prems have "\<not> set (map fst ps) \<subseteq> keys d" by auto
    from Cons.IH [OF this] obtain k where
      "diff_items d ps = Inl (KeyError k)" "k \<in> set (map fst ps)" "k \<notin> keys d" by blast
    ultimately show ?thesis by auto
  qed
qed

lemma diff_items_self: "distinct (map fst d) \<Longrightarrow> diff_items d d = Inr []"
proof -
  assume dist: "distinct (map fst d)"
  have "set (map fst d) \<subseteq> keys d" by (simp add: keys_def)
  from diff_items_Inr [OF this] dist show ?thesis
    by (simp add: filter_empty_conv)
qed

text \<open>
  C9. Precondition of \<open>self.diff( other )\<close>: every flag of \<open>other\<close> is a flag of \<open>self\<close>.
  Where some flag of \<open>other\<close> is missing from \<open>self\<close>, consuming the diff raises the
  \<open>KeyError\<close> of such a flag; where none is missing, it yields the pairs of \<open>other.options\<close>
  whose value is not the one \<open>self\<close> holds, in the order of \<open>other\<close>.
\<close>

theorem diff_precondition:
  "(\<not> keys (h ! options other) \<subseteq> keys (h ! options self) \<longrightarrow>
      (\<exists>k. diff h self other = Inl (KeyError k)
          \<and> k \<in> keys (h ! options other) \<and> k \<notin> keys (h ! options self)))
   \<and> (keys (h ! options other) \<subseteq> keys (h ! options self) \<longrightarrow>
        diff h self other =
          Inr (filter (\<lambda>pair. map_of (h ! options self) (fst pair) \<noteq> Some (snd pair))
                 (h ! options other)))"
  using diff_items_Inl [of "h ! options other" "h ! options self"]
        diff_items_Inr [of "h ! options other" "h ! options self"]
  by (simp add: diff_def keys_def)

theorem diff_precondition_witness:
  "\<not> keys (example_heap ! options example_base) \<subseteq> keys (example_heap ! options example_old)
   \<and> (\<exists>k. diff example_heap example_old example_base = Inl (KeyError k)
          \<and> k \<in> keys (example_heap ! options example_base)
          \<and> k \<notin> keys (example_heap ! options example_old))
   \<and> keys (example_heap ! options example_reach) \<subseteq> keys (example_heap ! options example_base)
   \<and> diff example_heap example_base example_reach =
        Inr [(''-fexcess-precision=[fast|standard|standard16]'', ''fast''),
             (''-ftree-vectorize'', ''[disabled]''),
             (''-funroll-loops'', ''[enabled]'')]"
proof -
  have missing:
    "\<not> keys (example_heap ! options example_base) \<subseteq> keys (example_heap ! options example_old)"
    by (simp add: keys_def example_heap_def example_base_def example_old_def)
  have present:
    "keys (example_heap ! options example_reach) \<subseteq> keys (example_heap ! options example_base)"
    by (simp add: keys_def example_heap_def example_base_def example_reach_def)
  have differing:
    "filter (\<lambda>pair. map_of (example_heap ! options example_base) (fst pair) \<noteq> Some (snd pair))
       (example_heap ! options example_reach) =
     [(''-fexcess-precision=[fast|standard|standard16]'', ''fast''),
      (''-ftree-vectorize'', ''[disabled]''),
      (''-funroll-loops'', ''[enabled]'')]"
    by (simp add: example_heap_def example_base_def example_reach_def)
  from diff_precondition [where h = example_heap and self = example_old and other = example_base]
    missing
  have raised: "\<exists>k. diff example_heap example_old example_base = Inl (KeyError k)
          \<and> k \<in> keys (example_heap ! options example_base)
          \<and> k \<notin> keys (example_heap ! options example_old)"
    by blast
  from diff_precondition [where h = example_heap and self = example_base and other = example_reach]
    present differing
  have "diff example_heap example_base example_reach =
        Inr [(''-fexcess-precision=[fast|standard|standard16]'', ''fast''),
             (''-ftree-vectorize'', ''[disabled]''),
             (''-funroll-loops'', ''[enabled]'')]"
    by simp
  with missing raised present show ?thesis by blast
qed

section \<open>\<open>fromArgs\<close> and \<open>flatten\<close>\<close>

text \<open>
  C7, as the code has it. \<open>fromArgs\<close> fails in both cases, with different exceptions. A
  compiler that exits non-zero raises \<open>CalledProcessError\<close>, a subprocess error that carries
  the captured standard output and standard error. A compiler that cannot be started raises
  an \<open>OSError\<close>: it is not a subprocess error, the \<open>except\<close> clause of \<open>fromArgs\<close> does not
  see it, and it carries no captured output. Neither changes the store.
\<close>

theorem fromArgs_failure:
  "(run_cc c (yielded argv) = ExitNonZero out err \<longrightarrow>
      fromArgs run_cc argv c h = (Inl (CalledProcessError (Some out) (Some err)), h)
      \<and> is_SubprocessError (CalledProcessError (Some out) (Some err)))
   \<and> (run_cc c (yielded argv) = CannotStart \<longrightarrow>
        fromArgs run_cc argv c h = (Inl OSError, h) \<and> \<not> is_SubprocessError OSError
        \<and> exn_stdout OSError = None \<and> exn_stderr OSError = None)"
  by (simp add: fromArgs_def)

theorem fromArgs_failure_witness:
  "failing_gcc ''gcc'' (yielded (ListObject [''-O2''])) =
     ExitNonZero [] ''gcc: error: unrecognized command-line option''
   \<and> fromArgs failing_gcc (ListObject [''-O2'']) ''gcc'' example_heap =
       (Inl (CalledProcessError (Some [])
               (Some ''gcc: error: unrecognized command-line option'')), example_heap)
   \<and> missing_gcc ''gcc'' (yielded (ListObject [''-O2''])) = CannotStart
   \<and> fromArgs missing_gcc (ListObject [''-O2'']) ''gcc'' example_heap = (Inl OSError, example_heap)"
proof -
  have exits: "failing_gcc ''gcc'' (yielded (ListObject [''-O2''])) =
     ExitNonZero [] ''gcc: error: unrecognized command-line option''"
    by (simp add: failing_gcc_def)
  have absent: "missing_gcc ''gcc'' (yielded (ListObject [''-O2''])) = CannotStart"
    by (simp add: missing_gcc_def)
  from fromArgs_failure [where run_cc = failing_gcc and c = "''gcc''"
      and argv = "ListObject [''-O2'']" and h = example_heap] exits
    fromArgs_failure [where run_cc = missing_gcc and c = "''gcc''"
      and argv = "ListObject [''-O2'']" and h = example_heap] absent
  show ?thesis by blast
qed

text \<open>
  C7, as stated, fails where the compiler cannot be started: the exception is not the
  subprocess error that \<open>fromArgs\<close> names, and it carries neither captured stream.
\<close>

theorem fromArgs_cannot_start_counterexample:
  "missing_gcc ''gcc'' (yielded (ListObject [''-O2''])) = CannotStart
   \<and> fromArgs missing_gcc (ListObject [''-O2'']) ''gcc'' example_heap = (Inl OSError, example_heap)
   \<and> \<not> is_SubprocessError OSError
   \<and> exn_stdout OSError = None \<and> exn_stderr OSError = None"
  by (simp add: fromArgs_def missing_gcc_def)

text \<open>
  C5. \<open>flatten\<close> returns exactly when the compiler reports and the implied set knows every
  flag of the set; what it returns is then the base arguments followed by what the
  specification emits for the delta entries, in the order of the delta: nothing for
  \<open>[default]\<close>, the bare name for \<open>[enabled]\<close>, the name with its leftmost \<open>-f\<close> rewritten
  once to \<open>-fno-\<close> for \<open>[disabled]\<close>, the name followed by the value otherwise.
\<close>

theorem flatten_emits:
  assumes "options s < length h"
  shows "flatten run_cc s h = (Inr xs, h') \<longleftrightarrow>
           (\<exists>rows. run_cc (cc s) (arg_tokens (args s)) = Report rows
              \<and> keys (h ! options s) \<subseteq> keys (report_dict rows)
              \<and> h' = h @ [report_dict rows]
              \<and> xs = arg_tokens (args s) @ concat (map spec_emit (spec_delta (report_dict rows) (h ! options s))))"
proof (cases "run_cc (cc s) (arg_tokens (args s))")
  case (Report rows)
  let ?d = "report_dict rows"
  have own: "(h @ [?d]) ! options s = h ! options s"
    using assms by (simp add: nth_append)
  show ?thesis
  proof (cases "keys (h ! options s) \<subseteq> keys ?d")
    case True
    then have "diff_items ?d (h ! options s) = Inr (spec_delta ?d (h ! options s))"
      by (simp add: diff_items_Inr spec_delta_def keys_def)
    with Report own True show ?thesis
      by (auto simp: flatten_def fromArgs_def diff_def transform_spec_emit)
  next
    case False
    then have "\<exists>k. diff_items ?d (h ! options s) = Inl (KeyError k)"
      using diff_items_Inl [of "h ! options s" ?d] by (auto simp: keys_def)
    with Report own False show ?thesis
      by (auto simp: flatten_def fromArgs_def diff_def)
  qed
next
  case ReportNotUtf8
  then show ?thesis by (simp add: flatten_def fromArgs_def)
next
  case (ExitNonZero out err)
  then show ?thesis by (simp add: flatten_def fromArgs_def)
next
  case CannotStart
  then show ?thesis by (simp add: flatten_def fromArgs_def)
qed

theorem flatten_emits_witness:
  "options example_mixed < length example_heap
   \<and> flatten example_gcc example_mixed example_heap =
       (Inr example_flat, example_heap @ [example_implied])
   \<and> (\<exists>rows. example_gcc (cc example_mixed) (arg_tokens (args example_mixed)) = Report rows
          \<and> keys (example_heap ! options example_mixed) \<subseteq> keys (report_dict rows)
          \<and> example_heap @ [example_implied] = example_heap @ [report_dict rows]
          \<and> example_flat =
              arg_tokens (args example_mixed) @
              concat (map spec_emit
                (spec_delta (report_dict rows) (example_heap ! options example_mixed))))"
proof -
  have len: "options example_mixed < length example_heap"
    by (simp add: example_mixed_def example_heap_def)
  have flat: "flatten example_gcc example_mixed example_heap =
       (Inr example_flat, example_heap @ [example_implied])"
    by code_simp
  from flatten_emits [OF len, of example_gcc example_flat "example_heap @ [example_implied]"]
    len flat
  show ?thesis by blast
qed

text \<open>
  C6, as the code has it. Flattening is idempotent, for a compiler whose report is a
  function of its command line, when the flattened arguments go back to \<open>fromArgs\<close> as a
  list (\<open>list( S.flatten() )\<close>): the set that comes out holds that list, its options are
  what its own arguments imply, and it flattens to the same arguments.
\<close>

theorem flatten_idempotent:
  assumes "flatten run_cc s h = (Inr xs, h1)"
    and "fromArgs run_cc (ListObject xs) (cc s) h1 = (Inr s', h2)"
  shows "\<exists>h3. flatten run_cc s' h2 = (Inr xs, h3)"
proof -
  from assms(2) obtain rows where rows: "run_cc (cc s) xs = Report rows"
    and s': "s' = \<lparr>options = length h1, args = ArgList xs, cc = cc s\<rparr>"
    and h2: "h2 = h1 @ [report_dict rows]"
    by (auto simp: fromArgs_def split: cc_outcome.splits)
  have "diff_items (report_dict rows) (report_dict rows) = Inr []"
    by (simp add: diff_items_self report_dict_def distinct_dict_of)
  with rows show ?thesis
    by (simp add: flatten_def fromArgs_def diff_def s' h2 nth_append)
qed

theorem flatten_idempotent_witness:
  "flatten example_gcc example_mixed example_heap =
     (Inr example_flat, example_heap @ [example_implied])
   \<and> fromArgs example_gcc (ListObject example_flat) (cc example_mixed)
         (example_heap @ [example_implied]) =
       (Inr \<lparr>options = 5, args = ArgList example_flat, cc = ''gcc''\<rparr>,
        example_heap @ [example_implied] @ [report_dict (example_report example_flat)])
   \<and> (\<exists>h3. flatten example_gcc \<lparr>options = 5, args = ArgList example_flat, cc = ''gcc''\<rparr>
              (example_heap @ [example_implied] @ [report_dict (example_report example_flat)]) =
            (Inr example_flat, h3))"
proof -
  have flat: "flatten example_gcc example_mixed example_heap =
     (Inr example_flat, example_heap @ [example_implied])"
    by code_simp
  have again:
    "fromArgs example_gcc (ListObject example_flat) (cc example_mixed)
         (example_heap @ [example_implied]) =
       (Inr \<lparr>options = 5, args = ArgList example_flat, cc = ''gcc''\<rparr>,
        example_heap @ [example_implied] @ [report_dict (example_report example_flat)])"
    by (simp add: fromArgs_def example_gcc_def example_mixed_def example_heap_def)
  from flatten_idempotent [OF flat again] flat again show ?thesis by blast
qed

text \<open>
  C6, as stated, fails when the chain that \<open>flatten\<close> returns is itself the argument of
  \<open>fromArgs\<close>: the compiler query uses the chain up, the new set holds an exhausted
  iterator, and flattening it queries the compiler without arguments and yields nothing
  but the delta against the compiler's own defaults.
\<close>

theorem flatten_iterator_counterexample:
  "flatten example_gcc example_mixed example_heap =
     (Inr example_flat, example_heap @ [example_implied])
   \<and> fromArgs example_gcc (IteratorObject example_flat) (cc example_mixed)
         (example_heap @ [example_implied]) =
       (Inr \<lparr>options = 5, args = Exhausted, cc = ''gcc''\<rparr>,
        example_heap @ [example_implied] @ [report_dict (example_report example_flat)])
   \<and> fst (flatten example_gcc \<lparr>options = 5, args = Exhausted, cc = ''gcc''\<rparr>
              (example_heap @ [example_implied] @ [report_dict (example_report example_flat)])) =
        Inr [''-fexcess-precision=[fast|standard|standard16]fast'', ''-ftree-vectorize'']
   \<and> [''-fexcess-precision=[fast|standard|standard16]fast'', ''-ftree-vectorize'']
        \<noteq> example_flat"
  by code_simp

section \<open>One round of the walk\<close>

lemma trial_cases:
  "trial run_cc t r h =
     (case run_cc (cc r) (arg_tokens (args r)) of
        CannotStart \<Rightarrow> (Some OSError, h)
      | ExitNonZero out err \<Rightarrow> (Some (CalledProcessError (Some out) (Some err)), h)
      | ReportNotUtf8 \<Rightarrow> (Some UnicodeDecodeError, h)
      | Report rows \<Rightarrow>
          (case diff_items (report_dict rows) ((h @ [report_dict rows]) ! options r) of
             Inl e \<Rightarrow> (Some e, h @ [report_dict rows])
           | Inr ds \<Rightarrow>
               (t (arg_tokens (args r) @ map transform (filter (\<lambda>pair. snd pair \<noteq> ''[default]'') ds)),
                h @ [report_dict rows])))"
  by (simp add: trial_def flatten_def fromArgs_def diff_def split: cc_outcome.splits sum.splits)

text \<open>A trial allocates at most the dictionary of the implied set and writes nowhere.\<close>

lemma trial_heap: "trial run_cc t r h = (res, h') \<Longrightarrow> \<exists>ext. h' = h @ ext"
  by (auto simp: trial_cases split: cc_outcome.splits sum.splits)

lemma step_cases:
  assumes "regress_step run_cc t b r pair h = (res, h')"
  obtains
    (raised) "h' = h"
  | (kept) original ext where
      "map_of (h ! options r) (fst pair) = Some original"
      "h' = h[options r := setitem (h ! options r) (fst pair) (snd pair)] @ ext"
  | (reverted) original ext where
      "map_of (h ! options r) (fst pair) = Some original"
      "h' = (h[options r := setitem (h ! options r) (fst pair) (snd pair)] @ ext)
              [options r :=
                 setitem ((h[options r := setitem (h ! options r) (fst pair) (snd pair)] @ ext)
                            ! options r) (fst pair) original]"
proof -
  let ?h1 = "h[options r := setitem (h ! options r) (fst pair) (snd pair)]"
  obtain res2 h2 where tr: "trial run_cc t r ?h1 = (res2, h2)"
    by (cases "trial run_cc t r ?h1")
  then obtain ext where h2: "h2 = ?h1 @ ext"
    using trial_heap by blast
  from assms tr h2 show thesis
    by (auto simp: regress_step_def getitem_def intro: raised kept reverted
             split: sum.splits option.splits if_splits)
qed

lemma step_heap:
  assumes "regress_step run_cc t b r pair h = (res, h')" and "options r < length h"
  shows "length h \<le> length h' \<and> (\<forall>i<length h. i \<noteq> options r \<longrightarrow> h' ! i = h ! i)"
  using assms(1)
proof (cases rule: step_cases)
  case raised
  then show ?thesis by simp
next
  case (kept original ext)
  then show ?thesis by (simp add: nth_append)
next
  case (reverted original ext)
  then show ?thesis by (simp add: nth_append)
qed

lemma step_caught:
  assumes "options b = options r"
    and "getitem (h ! options r) key = Inr original" and "original \<noteq> value"
    and "trial run_cc t r (h[options r := setitem (h ! options r) key value]) = (Some e, h2)"
    and "is_SubprocessError e"
  shows "regress_step run_cc t b r (key, value) h =
           (case exn_stdout e of
              None \<Rightarrow> Some AttributeError
            | Some out \<Rightarrow> if decodes out then None else Some UnicodeDecodeError,
            h2[options r := setitem (h2 ! options r) key original])"
  using assms by (simp add: regress_step_def split: option.splits)

lemma step_propagated:
  assumes "options b = options r"
    and "getitem (h ! options r) key = Inr original" and "original \<noteq> value"
    and "trial run_cc t r (h[options r := setitem (h ! options r) key value]) = (Some e, h2)"
    and "\<not> is_SubprocessError e"
  shows "regress_step run_cc t b r (key, value) h = (Some e, h2)"
  using assms by (simp add: regress_step_def)

text \<open>Under a predicate that always fails, a round that lets the walk go on restores the dictionary.\<close>

lemma step_revert:
  assumes "options r < length h"
    and "\<forall>xs. \<exists>e. t xs = Some e \<and> is_SubprocessError e"
    and "regress_step run_cc t b r pair h = (None, h')"
  shows "h' ! options r = h ! options r"
proof (cases "getitem (h ! options b) (fst pair)")
  case (Inl e)
  with assms(3) show ?thesis by (simp add: regress_step_def)
next
  case (Inr current)
  show ?thesis
  proof (cases "current = snd pair")
    case True
    with Inr assms(3) show ?thesis by (simp add: regress_step_def)
  next
    case False
    show ?thesis
    proof (cases "getitem (h ! options r) (fst pair)")
      case (Inl e)
      with Inr False assms(3) show ?thesis by (simp add: regress_step_def)
    next
      case original: (Inr original)
      let ?h1 = "h[options r := setitem (h ! options r) (fst pair) (snd pair)]"
      have orig: "map_of (h ! options r) (fst pair) = Some original"
        using original by (simp add: getitem_Inr)
      obtain res2 h2 where tr: "trial run_cc t r ?h1 = (res2, h2)"
        by (cases "trial run_cc t r ?h1")
      then obtain ext where h2: "h2 = ?h1 @ ext"
        using trial_heap by blast
      have cell: "h2 ! options r = setitem (h ! options r) (fst pair) (snd pair)"
        using assms(1) by (simp add: h2 nth_append)
      have len: "options r < length h2"
        using assms(1) by (simp add: h2)
      have "res2 \<noteq> None"
        using tr assms(2)
        by (auto simp: trial_cases split: cc_outcome.splits sum.splits)
      then obtain e where e: "res2 = Some e" by auto
      from assms(3) Inr False original tr e
      have "h' = h2[options r := setitem (h2 ! options r) (fst pair) original]"
        by (auto simp: regress_step_def split: if_splits option.splits)
      then show ?thesis
        using len cell orig by (simp add: setitem_same)
    qed
  qed
qed

lemma step_fail_total:
  assumes same: "options b = options r" and len: "options r < length h"
    and key: "fst pair \<in> keys (h ! options r)"
    and fails: "\<forall>xs. \<exists>e out. t xs = Some e \<and> is_SubprocessError e
                  \<and> exn_stdout e = Some out \<and> decodes out"
    and query: "(\<exists>rows. run_cc (cc r) (arg_tokens (args r)) = Report rows
                   \<and> keys (h ! options r) \<subseteq> keys (report_dict rows))
                \<or> (\<exists>out err. run_cc (cc r) (arg_tokens (args r)) = ExitNonZero out err
                      \<and> decodes out)"
  shows "\<exists>h'. regress_step run_cc t b r pair h = (None, h')"
proof -
  let ?d = "h ! options r"
  let ?h1 = "h[options r := setitem ?d (fst pair) (snd pair)]"
  from key obtain current where cur: "map_of ?d (fst pair) = Some current"
    by (auto simp: in_keys_iff)
  then have get: "getitem ?d (fst pair) = Inr current"
    by (rule getitem_Some)
  have "\<exists>e h2 out. trial run_cc t r ?h1 = (Some e, h2) \<and> is_SubprocessError e
          \<and> exn_stdout e = Some out \<and> decodes out"
    using query
  proof
    assume "\<exists>rows. run_cc (cc r) (arg_tokens (args r)) = Report rows
                   \<and> keys (h ! options r) \<subseteq> keys (report_dict rows)"
    then obtain rows where rows: "run_cc (cc r) (arg_tokens (args r)) = Report rows"
      and sub: "keys ?d \<subseteq> keys (report_dict rows)" by blast
    let ?rd = "report_dict rows"
    have cell: "(?h1 @ [?rd]) ! options r = setitem ?d (fst pair) (snd pair)"
      using len by (simp add: nth_append)
    have "set (map fst (setitem ?d (fst pair) (snd pair))) \<subseteq> keys ?rd"
      using sub key keys_setitem [of ?d "fst pair" "snd pair"]
      by (auto simp: keys_def)
    from diff_items_Inr [OF this] rows cell fails show ?thesis
      by (simp add: trial_cases)
  next
    assume "\<exists>out err. run_cc (cc r) (arg_tokens (args r)) = ExitNonZero out err \<and> decodes out"
    then show ?thesis by (auto simp: trial_cases)
  qed
  then obtain e h2 out where "trial run_cc t r ?h1 = (Some e, h2)" "is_SubprocessError e"
    "exn_stdout e = Some out" "decodes out" by blast
  with get same show ?thesis
    by (auto simp: regress_step_def)
qed

lemma step_accept:
  assumes same: "options b = options r" and len: "options r < length h"
    and key: "fst pair \<in> keys (h ! options r)"
    and passes: "\<forall>xs. t xs = None"
    and rep: "run_cc (cc r) (arg_tokens (args r)) = Report rows"
    and sub: "keys (h ! options r) \<subseteq> keys (report_dict rows)"
  shows "\<exists>h'. regress_step run_cc t b r pair h = (None, h')
           \<and> h' ! options r = setitem (h ! options r) (fst pair) (snd pair)
           \<and> length h \<le> length h'"
proof -
  let ?d = "h ! options r"
  let ?rd = "report_dict rows"
  let ?h1 = "h[options r := setitem ?d (fst pair) (snd pair)]"
  from key obtain current where cur: "map_of ?d (fst pair) = Some current"
    by (auto simp: in_keys_iff)
  then have get: "getitem ?d (fst pair) = Inr current"
    by (rule getitem_Some)
  show ?thesis
  proof (cases "current = snd pair")
    case True
    with get same cur show ?thesis
      by (simp add: regress_step_def setitem_same)
  next
    case False
    have cell: "(?h1 @ [?rd]) ! options r = setitem ?d (fst pair) (snd pair)"
      using len by (simp add: nth_append)
    have "set (map fst (setitem ?d (fst pair) (snd pair))) \<subseteq> keys ?rd"
      using sub key keys_setitem [of ?d "fst pair" "snd pair"]
      by (auto simp: keys_def)
    from diff_items_Inr [OF this] rep cell passes
    have "trial run_cc t r ?h1 = (None, ?h1 @ [?rd])"
      by (simp add: trial_cases)
    with get same False cell show ?thesis
      by (simp add: regress_step_def)
  qed
qed

section \<open>The whole walk\<close>

lemma loop_heap:
  "regress_loop run_cc t b r ps h = (res, h') \<Longrightarrow> options r < length h \<Longrightarrow>
     length h \<le> length h' \<and> (\<forall>i<length h. i \<noteq> options r \<longrightarrow> h' ! i = h ! i)"
proof (induction ps arbitrary: h)
  case Nil
  then show ?case by simp
next
  case (Cons p ps)
  obtain res1 h1 where st: "regress_step run_cc t b r p h = (res1, h1)"
    by (cases "regress_step run_cc t b r p h")
  from step_heap [OF st Cons.prems(2)]
  have h1: "length h \<le> length h1" "\<forall>i<length h. i \<noteq> options r \<longrightarrow> h1 ! i = h ! i"
    by simp_all
  show ?case
  proof (cases res1)
    case None
    with st Cons.prems(1) have "regress_loop run_cc t b r ps h1 = (res, h')" by simp
    from Cons.IH [OF this] Cons.prems(2) h1 show ?thesis by auto
  next
    case (Some e)
    with st Cons.prems(1) h1 show ?thesis by auto
  qed
qed

lemma loop_append:
  "regress_loop run_cc t b r (ps @ qs) h =
     (case regress_loop run_cc t b r ps h of
        (None, h') \<Rightarrow> regress_loop run_cc t b r qs h'
      | (Some e, h') \<Rightarrow> (Some e, h'))"
  by (induction ps arbitrary: h) (auto split: prod.splits option.splits)

text \<open>
  The walk at one of its trials: once the pairs before it have gone through, the walk is the
  round for that pair followed by the walk over the pairs after it.
\<close>

lemma regress_at_trial:
  assumes "h ! options reach = pre @ (key, value) # rest"
    and "regress_loop run_cc t base \<lparr>options = options base, args = args reach, cc = cc base\<rparr> pre h
           = (None, h0)"
  shows "regress_loop run_cc t base \<lparr>options = options base, args = args reach, cc = cc base\<rparr>
           (h ! options reach) h =
         (case regress_step run_cc t base \<lparr>options = options base, args = args reach, cc = cc base\<rparr>
                 (key, value) h0 of
            (None, h') \<Rightarrow>
              regress_loop run_cc t base \<lparr>options = options base, args = args reach, cc = cc base\<rparr>
                rest h'
          | (Some e, h') \<Rightarrow> (Some e, h'))"
  using assms by (simp add: loop_append)

lemma loop_revert:
  assumes "\<forall>xs. \<exists>e. t xs = Some e \<and> is_SubprocessError e"
  shows "options r < length h \<Longrightarrow> regress_loop run_cc t b r ps h = (None, h') \<Longrightarrow>
           h' ! options r = h ! options r"
proof (induction ps arbitrary: h)
  case Nil
  then show ?case by simp
next
  case (Cons p ps)
  obtain res1 h1 where st: "regress_step run_cc t b r p h = (res1, h1)"
    by (cases "regress_step run_cc t b r p h")
  with Cons.prems(2) have res1: "res1 = None" and rest: "regress_loop run_cc t b r ps h1 = (None, h')"
    by (auto split: option.splits)
  have "length h \<le> length h1"
    using step_heap [OF st Cons.prems(1)] by simp
  with Cons.prems(1) have "options r < length h1" by simp
  from Cons.IH [OF this rest] step_revert [OF Cons.prems(1) assms] st res1
  show ?case by simp
qed

lemma loop_fail_total:
  assumes same: "options b = options r"
    and fails: "\<forall>xs. \<exists>e out. t xs = Some e \<and> is_SubprocessError e
                  \<and> exn_stdout e = Some out \<and> decodes out"
  shows "options r < length h \<Longrightarrow> set (map fst ps) \<subseteq> keys (h ! options r) \<Longrightarrow>
         (\<exists>rows. run_cc (cc r) (arg_tokens (args r)) = Report rows
                   \<and> keys (h ! options r) \<subseteq> keys (report_dict rows))
         \<or> (\<exists>out err. run_cc (cc r) (arg_tokens (args r)) = ExitNonZero out err
               \<and> decodes out) \<Longrightarrow>
         \<exists>h'. regress_loop run_cc t b r ps h = (None, h')"
proof (induction ps arbitrary: h)
  case Nil
  then show ?case by simp
next
  case (Cons p ps)
  from Cons.prems(2) have key: "fst p \<in> keys (h ! options r)" by simp
  from step_fail_total [where run_cc = run_cc and t = t, OF same Cons.prems(1) key fails
      Cons.prems(3)]
  obtain h1 where st: "regress_step run_cc t b r p h = (None, h1)" by blast
  from fails have fails': "\<forall>xs. \<exists>e. t xs = Some e \<and> is_SubprocessError e" by blast
  have cell: "h1 ! options r = h ! options r"
    using step_revert [OF Cons.prems(1) fails' st] .
  have len: "options r < length h1"
    using step_heap [OF st Cons.prems(1)] Cons.prems(1) by simp
  from Cons.IH [OF len] Cons.prems(2,3) cell
  obtain h' where "regress_loop run_cc t b r ps h1 = (None, h')" by auto
  with st show ?case by simp
qed

lemma loop_accept:
  assumes same: "options b = options r"
    and passes: "\<forall>xs. t xs = None"
    and rep: "run_cc (cc r) (arg_tokens (args r)) = Report rows"
  shows "options r < length h \<Longrightarrow> set (map fst ps) \<subseteq> keys (h ! options r) \<Longrightarrow>
         keys (h ! options r) \<subseteq> keys (report_dict rows) \<Longrightarrow>
         \<exists>h'. regress_loop run_cc t b r ps h = (None, h')
            \<and> h' ! options r = foldl (\<lambda>d p. setitem d (fst p) (snd p)) (h ! options r) ps"
proof (induction ps arbitrary: h)
  case Nil
  then show ?case by simp
next
  case (Cons p ps)
  from Cons.prems(2) have key: "fst p \<in> keys (h ! options r)" by simp
  from step_accept [where run_cc = run_cc and t = t, OF same Cons.prems(1) key passes rep
      Cons.prems(3)]
  obtain h1 where st: "regress_step run_cc t b r p h = (None, h1)"
    and cell: "h1 ! options r = setitem (h ! options r) (fst p) (snd p)"
    and len: "length h \<le> length h1" by blast
  have keys1: "keys (h1 ! options r) = keys (h ! options r)"
    using key by (auto simp: cell)
  have len1: "options r < length h1"
    using len Cons.prems(1) by simp
  from Cons.IH [OF len1] Cons.prems(2,3) keys1
  obtain h' where "regress_loop run_cc t b r ps h1 = (None, h')"
    "h' ! options r = foldl (\<lambda>d p. setitem d (fst p) (snd p)) (h1 ! options r) ps"
    by auto
  with st cell show ?case by simp
qed

section \<open>\<open>regress\<close>\<close>

text \<open>
  C2, as the code has it. The working set of \<open>regress\<close> is built from \<open>base.options\<close>
  itself, not from a copy: the set that \<open>regress\<close> returns refers to the dictionary of
  \<open>base\<close>, so every accepted change is a change of \<open>base.options\<close>. The walk writes to no
  other dictionary that existed before: each of them, the dictionary of \<open>reach\<close> included
  when it is another object, is as it was.
\<close>

theorem regress_shares_base_options:
  assumes "options base < length h"
    and "regress run_cc t base reach h = (Inr r, h')"
  shows "options r = options base \<and> args r = args reach \<and> cc r = cc base
       \<and> length h \<le> length h'
       \<and> (\<forall>i<length h. i \<noteq> options base \<longrightarrow> h' ! i = h ! i)"
proof -
  let ?r = "\<lparr>options = options base, args = args reach, cc = cc base\<rparr>"
  from assms(2) have loop: "regress_loop run_cc t base ?r (h ! options reach) h = (None, h')"
    and r: "r = ?r"
    by (auto simp: regress_def Let_def split: prod.splits option.splits)
  have "options ?r < length h"
    using assms(1) by simp
  from loop_heap [OF loop this] r show ?thesis
    by simp
qed

theorem regress_shares_base_options_witness:
  "options example_base < length example_heap
   \<and> regress example_gcc always_pass example_base example_reach example_heap =
       (Inr example_working,
        example_heap[0 := example_heap ! 1] @ replicate 3 example_implied)
   \<and> options example_working = options example_base
   \<and> length example_heap \<le> length (example_heap[0 := example_heap ! 1] @ replicate 3 example_implied)
   \<and> (example_heap[0 := example_heap ! 1] @ replicate 3 example_implied) ! options example_reach
       = example_heap ! options example_reach"
proof -
  have len: "options example_base < length example_heap"
    by (simp add: example_base_def example_heap_def)
  have run: "regress example_gcc always_pass example_base example_reach example_heap =
       (Inr example_working,
        example_heap[0 := example_heap ! 1] @ replicate 3 example_implied)"
    by code_simp
  have other: "options example_reach < length example_heap"
    "options example_reach \<noteq> options example_base"
    by (simp_all add: example_base_def example_reach_def example_heap_def)
  from regress_shares_base_options [OF len run] len run other show ?thesis
    by blast
qed

text \<open>
  C2, as stated, fails as soon as a trial is accepted: after a walk in which every trial
  passes, the dictionary of \<open>base\<close> holds the values of \<open>reach\<close>, which are not the values
  it held before.
\<close>

theorem regress_mutates_base_counterexample:
  "regress example_gcc always_pass example_base example_reach example_heap =
     (Inr example_working,
      example_heap[0 := example_heap ! 1] @ replicate 3 example_implied)
   \<and> (example_heap[0 := example_heap ! 1] @ replicate 3 example_implied) ! options example_base
       = example_heap ! options example_reach
   \<and> example_heap ! options example_reach \<noteq> example_heap ! options example_base"
  by code_simp

text \<open>
  C3. Revert correctness: under a predicate that fails on every trial, whenever \<open>regress\<close>
  returns a set, its options are the options \<open>base\<close> had on entry (no flag change survives),
  so the two agree when projected onto the flags of \<open>reach\<close>.
\<close>

theorem regress_revert_all:
  assumes len: "options base < length h"
    and fails: "\<forall>xs. \<exists>e. t xs = Some e \<and> is_SubprocessError e"
    and returned: "regress run_cc t base reach h = (Inr r, h')"
  shows "h' ! options r = h ! options base
       \<and> AList.restrict (keys (h ! options reach)) (h' ! options r)
           = AList.restrict (keys (h ! options reach)) (h ! options base)"
proof -
  let ?r = "\<lparr>options = options base, args = args reach, cc = cc base\<rparr>"
  have len': "options ?r < length h"
    using len by simp
  from returned
  have "regress_loop run_cc t base ?r (h ! options reach) h = (None, h')" and "r = ?r"
    by (auto simp: regress_def Let_def split: prod.splits option.splits)
  with loop_revert [OF fails len'] show ?thesis by simp
qed

theorem regress_revert_all_witness:
  "options example_base < length example_heap
   \<and> (\<forall>xs. \<exists>e. always_fail xs = Some e \<and> is_SubprocessError e)
   \<and> regress example_gcc always_fail example_base example_reach example_heap =
       (Inr example_working, example_heap @ replicate 3 example_implied)
   \<and> (example_heap @ replicate 3 example_implied) ! options example_working
       = example_heap ! options example_base
   \<and> AList.restrict (keys (example_heap ! options example_reach))
        ((example_heap @ replicate 3 example_implied) ! options example_working)
       = AList.restrict (keys (example_heap ! options example_reach))
           (example_heap ! options example_base)"
proof -
  have len: "options example_base < length example_heap"
    by (simp add: example_base_def example_heap_def)
  have fails: "\<forall>xs. \<exists>e. always_fail xs = Some e \<and> is_SubprocessError e"
    by (simp add: always_fail_def)
  have run: "regress example_gcc always_fail example_base example_reach example_heap =
       (Inr example_working, example_heap @ replicate 3 example_implied)"
    by code_simp
  from regress_revert_all [OF len fails run] len fails run
  show ?thesis by blast
qed

text \<open>
  The walk under a predicate that fails on every trial does complete when every failure can
  be handled and logged: \<open>base\<close> holds every flag of \<open>reach\<close>, the compiler either reports
  and implies every flag of \<open>base\<close> or exits non-zero with output that is UTF-8, and every
  failure of the predicate carries captured output that is UTF-8.
\<close>

lemma regress_returns_after_failures:
  assumes len: "options base < length h"
    and fails: "\<forall>xs. \<exists>e out. t xs = Some e \<and> is_SubprocessError e
                  \<and> exn_stdout e = Some out \<and> decodes out"
    and sub: "keys (h ! options reach) \<subseteq> keys (h ! options base)"
    and query: "(\<exists>rows. run_cc (cc base) (arg_tokens (args reach)) = Report rows
                   \<and> keys (h ! options base) \<subseteq> keys (report_dict rows))
                \<or> (\<exists>out err. run_cc (cc base) (arg_tokens (args reach)) = ExitNonZero out err
                      \<and> decodes out)"
  shows "\<exists>h'. regress run_cc t base reach h =
                 (Inr \<lparr>options = options base, args = args reach, cc = cc base\<rparr>, h')"
proof -
  let ?r = "\<lparr>options = options base, args = args reach, cc = cc base\<rparr>"
  have same: "options base = options ?r" by simp
  have len': "options ?r < length h"
    using len by simp
  have inside: "set (map fst (h ! options reach)) \<subseteq> keys (h ! options ?r)"
    using sub by (simp add: keys_def)
  have query': "(\<exists>rows. run_cc (cc ?r) (arg_tokens (args ?r)) = Report rows
                   \<and> keys (h ! options ?r) \<subseteq> keys (report_dict rows))
                \<or> (\<exists>out err. run_cc (cc ?r) (arg_tokens (args ?r)) = ExitNonZero out err
                      \<and> decodes out)"
    using query by simp
  have "\<exists>h'. regress_loop run_cc t base ?r (h ! options reach) h = (None, h')"
    using loop_fail_total [where run_cc = run_cc and t = t, OF same fails len' inside query'] .
  then show ?thesis
    by (auto simp: regress_def Let_def)
qed

text \<open>
  C4, as the code has it. Accept-all correctness: when every trial reaches the predicate and
  the predicate returns normally on every trial, the walk completes; in the set that
  \<open>regress\<close> returns, every flag of \<open>base.diff( reach )\<close> has the value of \<open>reach\<close>, every
  other flag keeps the value of \<open>base\<close>, and the flags keep their order. A trial reaches the
  predicate when \<open>base\<close> holds every flag of \<open>reach\<close> (the diff can be consumed) and the
  compiler reports for the working set's command line and implies every flag of \<open>base\<close>.
\<close>

theorem regress_accept_all:
  assumes len: "options base < length h"
    and dist: "distinct (map fst (h ! options reach))"
    and delta: "diff h base reach = Inr ds"
    and rep: "run_cc (cc base) (arg_tokens (args reach)) = Report rows"
    and sub: "keys (h ! options base) \<subseteq> keys (report_dict rows)"
    and passes: "\<forall>xs. t xs = None"
  shows "\<exists>h'. regress run_cc t base reach h =
                 (Inr \<lparr>options = options base, args = args reach, cc = cc base\<rparr>, h')
           \<and> (\<forall>k \<in> fst ` set ds. map_of (h' ! options base) k = map_of (h ! options reach) k)
           \<and> (\<forall>k. k \<notin> fst ` set ds \<longrightarrow> map_of (h' ! options base) k = map_of (h ! options base) k)
           \<and> map fst (h' ! options base) = map fst (h ! options base)"
proof -
  let ?r = "\<lparr>options = options base, args = args reach, cc = cc base\<rparr>"
  let ?d = "h ! options base"
  let ?ps = "h ! options reach"
  have same: "options base = options ?r" by simp
  have len': "options ?r < length h"
    using len by simp
  have rep': "run_cc (cc ?r) (arg_tokens (args ?r)) = Report rows"
    using rep by simp
  have inside: "set (map fst ?ps) \<subseteq> keys ?d"
    using diff_items_Inl [of ?ps ?d] delta by (auto simp: diff_def)
  then have ds: "ds = filter (\<lambda>pair. map_of ?d (fst pair) \<noteq> Some (snd pair)) ?ps"
    using delta by (simp add: diff_def diff_items_Inr)
  have inside': "set (map fst ?ps) \<subseteq> keys (h ! options ?r)"
    using inside by simp
  have sub': "keys (h ! options ?r) \<subseteq> keys (report_dict rows)"
    using sub by simp
  from loop_accept [where run_cc = run_cc and t = t, OF same passes rep' len' inside' sub']
  obtain h' where loop: "regress_loop run_cc t base ?r ?ps h = (None, h')"
    and cell: "h' ! options base = foldl (\<lambda>d p. setitem d (fst p) (snd p)) ?d ?ps"
    by auto
  have final: "map_of (h' ! options base) k =
                 (case map_of ?ps k of None \<Rightarrow> map_of ?d k | Some v \<Rightarrow> Some v)" for k
    by (simp add: cell map_of_foldl_setitem [OF dist])
  have changed: "map_of (h' ! options base) k = map_of ?ps k" if "k \<in> fst ` set ds" for k
  proof -
    from that ds have "k \<in> fst ` set ?ps" by auto
    then obtain v where "map_of ?ps k = Some v"
      by (metis map_of_eq_None_iff not_Some_eq)
    then show ?thesis by (simp add: final)
  qed
  have unchanged: "map_of (h' ! options base) k = map_of ?d k" if "k \<notin> fst ` set ds" for k
  proof (cases "map_of ?ps k")
    case None
    then show ?thesis by (simp add: final)
  next
    case (Some v)
    then have "(k, v) \<in> set ?ps"
      by (rule map_of_SomeD)
    with that ds have "map_of ?d k = Some v"
      by force
    with Some show ?thesis by (simp add: final)
  qed
  have order: "map fst (h' ! options base) = map fst ?d"
    using inside by (simp add: cell keys_order_foldl_setitem)
  from loop have "regress run_cc t base reach h = (Inr ?r, h')"
    by (simp add: regress_def Let_def)
  with changed unchanged order show ?thesis by blast
qed

theorem regress_accept_all_witness:
  "options example_base < length example_heap
   \<and> distinct (map fst (example_heap ! options example_reach))
   \<and> diff example_heap example_base example_reach =
        Inr [(''-fexcess-precision=[fast|standard|standard16]'', ''fast''),
             (''-ftree-vectorize'', ''[disabled]''),
             (''-funroll-loops'', ''[enabled]'')]
   \<and> example_gcc (cc example_base) (arg_tokens (args example_reach)) = Report (example_report (arg_tokens (args example_reach)))
   \<and> keys (example_heap ! options example_base)
        \<subseteq> keys (report_dict (example_report (arg_tokens (args example_reach))))
   \<and> (\<forall>xs. always_pass xs = None)
   \<and> (\<exists>h'. regress example_gcc always_pass example_base example_reach example_heap =
              (Inr \<lparr>options = options example_base, args = args example_reach,
                    cc = cc example_base\<rparr>, h')
        \<and> (\<forall>k \<in> fst ` set [(''-fexcess-precision=[fast|standard|standard16]'', ''fast''),
                              (''-ftree-vectorize'', ''[disabled]''),
                              (''-funroll-loops'', ''[enabled]'')].
              map_of (h' ! options example_base) k = map_of (example_heap ! options example_reach) k)
        \<and> (\<forall>k. k \<notin> fst ` set [(''-fexcess-precision=[fast|standard|standard16]'', ''fast''),
                                (''-ftree-vectorize'', ''[disabled]''),
                                (''-funroll-loops'', ''[enabled]'')] \<longrightarrow>
              map_of (h' ! options example_base) k = map_of (example_heap ! options example_base) k)
        \<and> map fst (h' ! options example_base) = map fst (example_heap ! options example_base))"
proof -
  have len: "options example_base < length example_heap"
    by (simp add: example_base_def example_heap_def)
  have dist: "distinct (map fst (example_heap ! options example_reach))"
    by (simp add: example_reach_def example_heap_def)
  have delta: "diff example_heap example_base example_reach =
        Inr [(''-fexcess-precision=[fast|standard|standard16]'', ''fast''),
             (''-ftree-vectorize'', ''[disabled]''),
             (''-funroll-loops'', ''[enabled]'')]"
    by code_simp
  have rep: "example_gcc (cc example_base) (arg_tokens (args example_reach)) =
      Report (example_report (arg_tokens (args example_reach)))"
    by (simp add: example_gcc_def)
  have sub: "keys (example_heap ! options example_base)
        \<subseteq> keys (report_dict (example_report (arg_tokens (args example_reach))))"
    by (simp add: example_report_def report_dict_def dict_of_def setitem_def
          startswith_def keys_def example_heap_def example_base_def example_reach_def)
  have passes: "\<forall>xs. always_pass xs = None"
    by (simp add: always_pass_def)
  from regress_accept_all [where run_cc = example_gcc and t = always_pass,
      OF len dist delta rep sub passes] len dist delta rep sub passes
  show ?thesis by blast
qed

text \<open>
  C4, as stated, fails when the compiler query of the trials exits non-zero: the predicate
  would return normally on any arguments, yet it is never called; every trial ends in the
  handler, \<open>regress\<close> returns, and the flags of the diff have the values of \<open>base\<close>, not
  those of \<open>reach\<close>.
\<close>

theorem regress_accept_all_counterexample:
  "diff example_heap example_base example_reach =
     Inr [(''-fexcess-precision=[fast|standard|standard16]'', ''fast''),
          (''-ftree-vectorize'', ''[disabled]''),
          (''-funroll-loops'', ''[enabled]'')]
   \<and> always_pass [''-O1'', ''-funroll-loops'', ''-ffast-math''] = None
   \<and> fst (regress failing_gcc always_pass example_base example_reach example_heap) =
        Inr example_working
   \<and> getitem (snd (regress failing_gcc always_pass example_base example_reach example_heap)
                 ! options example_working) ''-funroll-loops'' = Inr ''[disabled]''
   \<and> getitem (example_heap ! options example_reach) ''-funroll-loops'' = Inr ''[enabled]''"
  by code_simp

section \<open>Failures during a trial\<close>

text \<open>
  C1, as the code has it, for any trial of the walk (the pairs before it have gone through and
  the pair differs). A predicate failure that is a subprocess error with captured output
  that is UTF-8 is handled on the spot: the flag gets its value back and the walk goes on
  with the pairs that remain, from a store where the dictionary is as before the trial. A
  compiler that exits non-zero when \<open>flatten\<close> queries it, with output that is UTF-8, raises
  the same kind of error inside the same \<open>try\<close> and is handled the same way: it is not
  propagated. A compiler that cannot be started raises an \<open>OSError\<close>, which leaves
  \<open>regress\<close>.
\<close>

theorem regress_trial_failure:
  assumes items: "h ! options reach = pre @ (key, value) # rest"
    and before: "regress_loop run_cc t base
                   \<lparr>options = options base, args = args reach, cc = cc base\<rparr> pre h = (None, h0)"
    and len: "options base < length h0"
    and cur: "getitem (h0 ! options base) key = Inr original" and neq: "original \<noteq> value"
  shows "(flatten run_cc \<lparr>options = options base, args = args reach, cc = cc base\<rparr>
            (h0[options base := setitem (h0 ! options base) key value]) = (Inr xs, h2)
          \<and> t xs = Some e \<and> is_SubprocessError e \<and> exn_stdout e = Some out \<and> decodes out
          \<longrightarrow>
            h2[options base := setitem (h2 ! options base) key original] ! options base
              = h0 ! options base
            \<and> regress_loop run_cc t base
                 \<lparr>options = options base, args = args reach, cc = cc base\<rparr> (h ! options reach) h
               = regress_loop run_cc t base
                   \<lparr>options = options base, args = args reach, cc = cc base\<rparr> rest
                   (h2[options base := setitem (h2 ! options base) key original]))
       \<and> (run_cc (cc base) (arg_tokens (args reach)) = ExitNonZero out' err' \<and> decodes out'
          \<longrightarrow>
            regress_loop run_cc t base
              \<lparr>options = options base, args = args reach, cc = cc base\<rparr> (h ! options reach) h
            = regress_loop run_cc t base
                \<lparr>options = options base, args = args reach, cc = cc base\<rparr> rest h0)
       \<and> (run_cc (cc base) (arg_tokens (args reach)) = CannotStart \<longrightarrow>
            regress run_cc t base reach h =
              (Inl OSError, h0[options base := setitem (h0 ! options base) key value]))"
proof -
  let ?r = "\<lparr>options = options base, args = args reach, cc = cc base\<rparr>"
  let ?h1 = "h0[options base := setitem (h0 ! options base) key value]"
  have same: "options base = options ?r" by simp
  have cur': "getitem (h0 ! options ?r) key = Inr original"
    using cur by simp
  have orig: "map_of (h0 ! options base) key = Some original"
    using cur by (simp add: getitem_Inr)
  have walk: "regress_loop run_cc t base ?r (h ! options reach) h =
         (case regress_step run_cc t base ?r (key, value) h0 of
            (None, h') \<Rightarrow> regress_loop run_cc t base ?r rest h'
          | (Some e, h') \<Rightarrow> (Some e, h'))"
    using regress_at_trial [OF items before] .
  have predicate_failure:
    "h2[options base := setitem (h2 ! options base) key original] ! options base
       = h0 ! options base
     \<and> regress_loop run_cc t base ?r (h ! options reach) h
         = regress_loop run_cc t base ?r rest
             (h2[options base := setitem (h2 ! options base) key original])"
    if fl: "flatten run_cc ?r ?h1 = (Inr xs, h2)" and e: "t xs = Some e" "is_SubprocessError e"
      "exn_stdout e = Some out" "decodes out"
  proof -
    from fl e(1) have tr: "trial run_cc t ?r ?h1 = (Some e, h2)"
      by (simp add: trial_def)
    then obtain ext where h2: "h2 = ?h1 @ ext"
      using trial_heap by blast
    let ?h3 = "h2[options base := setitem (h2 ! options base) key original]"
    have "regress_step run_cc t base ?r (key, value) h0 = (None, ?h3)"
      using step_caught [where run_cc = run_cc and t = t, OF same cur' neq] tr e(2,3,4) by simp
    moreover have "?h3 ! options base = h0 ! options base"
      using len orig by (simp add: h2 nth_append setitem_same)
    ultimately show ?thesis
      using walk by simp
  qed
  have compiler_exit: "regress_loop run_cc t base ?r (h ! options reach) h
        = regress_loop run_cc t base ?r rest h0"
    if exits: "run_cc (cc base) (arg_tokens (args reach)) = ExitNonZero out' err'"
      and utf8: "decodes out'"
  proof -
    from exits
    have tr: "trial run_cc t ?r ?h1 = (Some (CalledProcessError (Some out') (Some err')), ?h1)"
      by (simp add: trial_cases)
    have "regress_step run_cc t base ?r (key, value) h0 =
            (None, ?h1[options base := setitem (?h1 ! options base) key original])"
      using step_caught [where run_cc = run_cc and t = t, OF same cur' neq] tr utf8 by simp
    moreover have "?h1[options base := setitem (?h1 ! options base) key original] = h0"
      using len orig by (simp add: setitem_same)
    ultimately show ?thesis
      using walk by simp
  qed
  have cannot_start: "regress run_cc t base reach h = (Inl OSError, ?h1)"
    if absent: "run_cc (cc base) (arg_tokens (args reach)) = CannotStart"
  proof -
    from absent have tr: "trial run_cc t ?r ?h1 = (Some OSError, ?h1)"
      by (simp add: trial_cases)
    have "regress_step run_cc t base ?r (key, value) h0 = (Some OSError, ?h1)"
      using step_propagated [where run_cc = run_cc and t = t, OF same cur' neq] tr by simp
    with walk show ?thesis
      by (simp add: regress_def Let_def)
  qed
  from predicate_failure compiler_exit cannot_start show ?thesis by blast
qed

theorem regress_trial_failure_witness:
  "regress_loop example_gcc unroll_breaks example_base example_working
       [(''-fexcess-precision=[fast|standard|standard16]'', ''fast''),
        (''-flifetime-dse=<0,2>'', ''2''),
        (''-ftree-vectorize'', ''[disabled]'')] example_heap = (None, example_midway)
   \<and> getitem (example_midway ! options example_base) ''-funroll-loops'' = Inr ''[disabled]''
   \<and> unroll_breaks [''-O1'', ''-funroll-loops'', ''-ffast-math''] =
        Some (CalledProcessError (Some ''FAILED'') None)
   \<and> regress_loop example_gcc unroll_breaks example_base example_working
         (example_heap ! options example_reach) example_heap
       = regress_loop example_gcc unroll_breaks example_base example_working []
           (example_midway @ [example_implied])
   \<and> failing_gcc (cc example_base) (arg_tokens (args example_reach)) =
        ExitNonZero [] ''gcc: error: unrecognized command-line option''
   \<and> regress_loop failing_gcc always_pass example_base example_working
         (example_heap ! options example_reach) example_heap
       = regress_loop failing_gcc always_pass example_base example_working
           [(''-flifetime-dse=<0,2>'', ''2''),
            (''-ftree-vectorize'', ''[disabled]''),
            (''-funroll-loops'', ''[enabled]'')] example_heap
   \<and> missing_gcc (cc example_base) (arg_tokens (args example_reach)) = CannotStart
   \<and> regress missing_gcc always_pass example_base example_reach example_heap =
        (Inl OSError,
         example_heap[options example_base :=
           setitem (example_heap ! options example_base) ''-fexcess-precision=[fast|standard|standard16]'' ''fast''])"
proof -
  let ?r = "\<lparr>options = options example_base, args = args example_reach, cc = cc example_base\<rparr>"
  have working: "example_working = ?r"
    by (simp add: example_working_def)
  have last_item: "example_heap ! options example_reach =
      [(''-fexcess-precision=[fast|standard|standard16]'', ''fast''),
       (''-flifetime-dse=<0,2>'', ''2''),
       (''-ftree-vectorize'', ''[disabled]'')] @ (''-funroll-loops'', ''[enabled]'') # []"
    by (simp add: example_heap_def example_reach_def)
  have before_last: "regress_loop example_gcc unroll_breaks example_base ?r
       [(''-fexcess-precision=[fast|standard|standard16]'', ''fast''),
        (''-flifetime-dse=<0,2>'', ''2''),
        (''-ftree-vectorize'', ''[disabled]'')] example_heap = (None, example_midway)"
    by code_simp
  have len_midway: "options example_base < length example_midway"
    by (simp add: example_base_def example_midway_def example_heap_def)
  have cur_last: "getitem (example_midway ! options example_base) ''-funroll-loops'' = Inr ''[disabled]''"
    by code_simp
  have neq_last: "''[disabled]'' \<noteq> ''[enabled]''"
    by simp
  have flat_last: "flatten example_gcc ?r
      (example_midway[options example_base :=
         setitem (example_midway ! options example_base) ''-funroll-loops'' ''[enabled]'']) =
      (Inr [''-O1'', ''-funroll-loops'', ''-ffast-math''],
       example_midway[options example_base :=
         setitem (example_midway ! options example_base) ''-funroll-loops'' ''[enabled]'']
       @ [example_implied])"
    by code_simp
  have breaks: "unroll_breaks [''-O1'', ''-funroll-loops'', ''-ffast-math''] =
        Some (CalledProcessError (Some ''FAILED'') None)"
    by (simp add: unroll_breaks_def)
  have caught: "is_SubprocessError (CalledProcessError (Some ''FAILED'') None)"
    "exn_stdout (CalledProcessError (Some ''FAILED'') None) = Some ''FAILED''"
    by simp_all
  have readable: "decodes ''FAILED''" "decodes []"
    by (simp_all add: decodes_def)
  from regress_trial_failure [where run_cc = example_gcc and t = unroll_breaks
      and xs = "[''-O1'', ''-funroll-loops'', ''-ffast-math'']"
      and e = "CalledProcessError (Some ''FAILED'') None" and out = "''FAILED''",
      OF last_item before_last len_midway cur_last neq_last]
    flat_last breaks caught readable
  have "regress_loop example_gcc unroll_breaks example_base ?r
         (example_heap ! options example_reach) example_heap
       = regress_loop example_gcc unroll_breaks example_base ?r []
           ((example_midway[options example_base :=
               setitem (example_midway ! options example_base) ''-funroll-loops'' ''[enabled]'']
             @ [example_implied])
            [options example_base :=
               setitem ((example_midway[options example_base :=
                  setitem (example_midway ! options example_base) ''-funroll-loops'' ''[enabled]'']
                  @ [example_implied]) ! options example_base) ''-funroll-loops'' ''[disabled]''])"
    by blast
  moreover have "(example_midway[options example_base :=
               setitem (example_midway ! options example_base) ''-funroll-loops'' ''[enabled]'']
             @ [example_implied])
            [options example_base :=
               setitem ((example_midway[options example_base :=
                  setitem (example_midway ! options example_base) ''-funroll-loops'' ''[enabled]'']
                  @ [example_implied]) ! options example_base) ''-funroll-loops'' ''[disabled]'']
      = example_midway @ [example_implied]"
    by code_simp
  ultimately have reverted: "regress_loop example_gcc unroll_breaks example_base ?r
         (example_heap ! options example_reach) example_heap
       = regress_loop example_gcc unroll_breaks example_base ?r []
           (example_midway @ [example_implied])"
    by simp
  have first_item: "example_heap ! options example_reach =
      [] @ (''-fexcess-precision=[fast|standard|standard16]'', ''fast'') #
        [(''-flifetime-dse=<0,2>'', ''2''),
         (''-ftree-vectorize'', ''[disabled]''),
         (''-funroll-loops'', ''[enabled]'')]"
    by (simp add: example_heap_def example_reach_def)
  have len_first: "options example_base < length example_heap"
    by (simp add: example_base_def example_heap_def)
  have cur_first: "getitem (example_heap ! options example_base) ''-fexcess-precision=[fast|standard|standard16]'' = Inr ''[default]''"
    by code_simp
  have neq_first: "''[default]'' \<noteq> ''fast''"
    by simp
  have exits: "failing_gcc (cc example_base) (arg_tokens (args example_reach)) =
        ExitNonZero [] ''gcc: error: unrecognized command-line option''"
    by (simp add: failing_gcc_def)
  have absent: "missing_gcc (cc example_base) (arg_tokens (args example_reach)) = CannotStart"
    by (simp add: missing_gcc_def)
  have before_failing: "regress_loop failing_gcc always_pass example_base ?r [] example_heap
      = (None, example_heap)"
    by simp
  have before_missing: "regress_loop missing_gcc always_pass example_base ?r [] example_heap
      = (None, example_heap)"
    by simp
  from regress_trial_failure [where run_cc = failing_gcc and t = always_pass,
      OF first_item before_failing len_first cur_first neq_first] exits readable
  have swallowed: "regress_loop failing_gcc always_pass example_base ?r
         (example_heap ! options example_reach) example_heap
       = regress_loop failing_gcc always_pass example_base ?r
           [(''-flifetime-dse=<0,2>'', ''2''),
            (''-ftree-vectorize'', ''[disabled]''),
            (''-funroll-loops'', ''[enabled]'')] example_heap"
    by blast
  from regress_trial_failure [where run_cc = missing_gcc and t = always_pass,
      OF first_item before_missing len_first cur_first neq_first] absent
  have fatal: "regress missing_gcc always_pass example_base example_reach example_heap =
        (Inl OSError,
         example_heap[options example_base :=
           setitem (example_heap ! options example_base) ''-fexcess-precision=[fast|standard|standard16]'' ''fast''])"
    by blast
  from before_last cur_last breaks reverted exits swallowed absent fatal
  show ?thesis
    unfolding working by blast
qed

text \<open>
  C1, as stated, fails for a compiler that exits non-zero during the trials: every query of
  the walk fails, and \<open>regress\<close> returns its working set all the same, with the options and
  the store as they were.
\<close>

theorem regress_swallows_compiler_failure_counterexample:
  "failing_gcc (cc example_base) (arg_tokens (args example_reach)) =
     ExitNonZero [] ''gcc: error: unrecognized command-line option''
   \<and> diff example_heap example_base example_reach =
        Inr [(''-fexcess-precision=[fast|standard|standard16]'', ''fast''),
             (''-ftree-vectorize'', ''[disabled]''),
             (''-funroll-loops'', ''[enabled]'')]
   \<and> regress failing_gcc always_pass example_base example_reach example_heap =
        (Inr example_working, example_heap)"
  by code_simp

text \<open>
  C10. For any trial of the walk: when the predicate raises an exception that is not a
  subprocess error, \<open>regress\<close> raises that exception, and the dictionary of the working
  set (which is that of \<open>base\<close>) is left with the tentative value of the flag. The predicate
  of the command line raises such exceptions: \<open>IndexError\<close> for the empty command vector of
  an empty or \<open>;\<close>-terminated token stream, \<open>OSError\<close> for an executable that does not
  exist.
\<close>

theorem regress_propagates_other:
  assumes items: "h ! options reach = pre @ (key, value) # rest"
    and before: "regress_loop run_cc t base
                   \<lparr>options = options base, args = args reach, cc = cc base\<rparr> pre h = (None, h0)"
    and len: "options base < length h0"
    and cur: "getitem (h0 ! options base) key = Inr original" and neq: "original \<noteq> value"
    and fl: "flatten run_cc \<lparr>options = options base, args = args reach, cc = cc base\<rparr>
               (h0[options base := setitem (h0 ! options base) key value]) = (Inr xs, h2)"
    and raised: "t xs = Some e" and other: "\<not> is_SubprocessError e"
  shows "regress run_cc t base reach h = (Inl e, h2)
           \<and> getitem (h2 ! options base) key = Inr value"
proof -
  let ?r = "\<lparr>options = options base, args = args reach, cc = cc base\<rparr>"
  let ?h1 = "h0[options base := setitem (h0 ! options base) key value]"
  have same: "options base = options ?r" by simp
  have cur': "getitem (h0 ! options ?r) key = Inr original"
    using cur by simp
  from fl raised have tr: "trial run_cc t ?r ?h1 = (Some e, h2)"
    by (simp add: trial_def)
  then obtain ext where h2: "h2 = ?h1 @ ext"
    using trial_heap by blast
  have "regress_step run_cc t base ?r (key, value) h0 = (Some e, h2)"
    using step_propagated [where run_cc = run_cc and t = t, OF same cur' neq] tr other by simp
  with regress_at_trial [OF items before]
  have "regress run_cc t base reach h = (Inl e, h2)"
    by (simp add: regress_def Let_def)
  moreover have "getitem (h2 ! options base) key = Inr value"
    using len by (simp add: h2 nth_append getitem_Some)
  ultimately show ?thesis by simp
qed

theorem regress_propagates_other_witness:
  "testPredicate empty_tokenize passing_runner None
       [''-O1'', ''-funroll-loops'', ''-ffast-math'', ''-ftree-vectorize'', ''-fno-unroll-loops'']
     = Some IndexError
   \<and> \<not> is_SubprocessError IndexError
   \<and> regress example_gcc (testPredicate empty_tokenize passing_runner None)
         example_base example_reach example_heap =
       (Inl IndexError,
        example_heap[options example_base :=
          setitem (example_heap ! options example_base) ''-fexcess-precision=[fast|standard|standard16]'' ''fast'']
        @ [example_implied])
   \<and> getitem ((example_heap[options example_base :=
                  setitem (example_heap ! options example_base) ''-fexcess-precision=[fast|standard|standard16]'' ''fast'']
                @ [example_implied]) ! options example_base) ''-fexcess-precision=[fast|standard|standard16]'' = Inr ''fast''"
proof -
  let ?r = "\<lparr>options = options example_base, args = args example_reach, cc = cc example_base\<rparr>"
  let ?t = "testPredicate empty_tokenize passing_runner None"
  have first_item: "example_heap ! options example_reach =
      [] @ (''-fexcess-precision=[fast|standard|standard16]'', ''fast'') #
        [(''-flifetime-dse=<0,2>'', ''2''),
         (''-ftree-vectorize'', ''[disabled]''),
         (''-funroll-loops'', ''[enabled]'')]"
    by (simp add: example_heap_def example_reach_def)
  have before: "regress_loop example_gcc ?t example_base ?r [] example_heap = (None, example_heap)"
    by simp
  have len: "options example_base < length example_heap"
    by (simp add: example_base_def example_heap_def)
  have cur: "getitem (example_heap ! options example_base) ''-fexcess-precision=[fast|standard|standard16]'' = Inr ''[default]''"
    by code_simp
  have neq: "''[default]'' \<noteq> ''fast''"
    by simp
  have flat: "flatten example_gcc ?r
      (example_heap[options example_base :=
         setitem (example_heap ! options example_base) ''-fexcess-precision=[fast|standard|standard16]'' ''fast'']) =
      (Inr [''-O1'', ''-funroll-loops'', ''-ffast-math'', ''-ftree-vectorize'',
            ''-fno-unroll-loops''],
       example_heap[options example_base :=
         setitem (example_heap ! options example_base) ''-fexcess-precision=[fast|standard|standard16]'' ''fast'']
       @ [example_implied])"
    by code_simp
  have raised: "?t [''-O1'', ''-funroll-loops'', ''-ffast-math'', ''-ftree-vectorize'',
                    ''-fno-unroll-loops''] = Some IndexError"
    by (simp add: testPredicate_def empty_tokenize_def split_cmds_def run_checked_def)
  have other: "\<not> is_SubprocessError IndexError"
    by simp
  from regress_propagates_other [where run_cc = example_gcc and t = ?t,
      OF first_item before len cur neq flat raised other] raised other
  show ?thesis by blast
qed

text \<open>
  A failure whose captured output is not UTF-8 is caught and the flag gets its value back,
  but the log line of the handler cannot be built: \<open>UnicodeDecodeError\<close> leaves \<open>regress\<close>
  at that trial.
\<close>

lemma regress_undecodable_failure_aborts:
  "\<not> decodes [CHR 0xFF]
   \<and> regress example_gcc garbled_fail example_base example_reach example_heap =
       (Inl UnicodeDecodeError, example_heap @ [example_implied])"
  by code_simp

section \<open>The predicate of the command line raises\<close>

lemma split_cmds_snoc: "split_cmds (tokens @ [token]) = split_step (split_cmds tokens) token"
  by (simp add: split_cmds_def)

lemma run_all_append:
  "run_all run timeout (cmds @ others) =
     (case run_all run timeout cmds of Some e \<Rightarrow> Some e | None \<Rightarrow> run_all run timeout others)"
  by (induction cmds) (simp_all split: option.splits)

text \<open>No token at all: the one command vector is empty.\<close>

lemma testPredicate_empty_tokens:
  "tokenize opts = Inr [] \<Longrightarrow> testPredicate tokenize run timeout opts = Some IndexError"
  by (simp add: testPredicate_def split_cmds_def run_checked_def)

text \<open>A last token \<open>;\<close> opens an empty command vector, run once the commands before it have passed.\<close>

lemma testPredicate_trailing_semicolon:
  "tokenize opts = Inr (tokens @ ['';'']) \<Longrightarrow>
     run_all run timeout (split_cmds tokens) = None \<Longrightarrow>
     testPredicate tokenize run timeout opts = Some IndexError"
  by (simp add: testPredicate_def split_cmds_snoc run_all_append run_checked_def)

lemma run_checked_not_started:
  "cmd \<noteq> [] \<Longrightarrow> run timeout cmd = NotStarted \<Longrightarrow> run_checked run timeout cmd = Some OSError"
  by (simp add: run_checked_def)

text \<open>The expiry of the timeout is a subprocess error with the output read so far.\<close>

lemma run_checked_timeout:
  "cmd \<noteq> [] \<Longrightarrow> run timeout cmd = Timeout out \<Longrightarrow>
     run_checked run timeout cmd = Some (TimeoutExpired out None)
     \<and> is_SubprocessError (TimeoutExpired out None)
     \<and> exn_stdout (TimeoutExpired out None) = out"
  by (simp add: run_checked_def)

text \<open>
  C8, at a trial whose command writes nothing and outlives the timeout. The predicate raises
  \<open>TimeoutExpired\<close> with no captured output; the handler of \<open>regress\<close> catches it and gives
  the flag its value back, then its log line fails on the missing output: \<open>regress\<close> raises
  \<open>AttributeError\<close> at the first trial and the two flags after it are never tried. The
  dictionary of \<open>base\<close> is as on entry.
\<close>

theorem regress_silent_timeout_aborts:
  "testPredicate make_tokenize hanging_runner (Some 60)
       [''-O1'', ''-funroll-loops'', ''-ffast-math'', ''-ftree-vectorize'', ''-fno-unroll-loops'']
     = Some (TimeoutExpired None None)
   \<and> regress example_gcc (testPredicate make_tokenize hanging_runner (Some 60))
         example_base example_reach example_heap =
       (Inl AttributeError, example_heap @ [example_implied])"
  by code_simp


end
